theory Spec2Isabelle
  imports Complex_Main
begin

section \<open>Sound service: the look-ahead music scheduler (src/services/soundService.ts)\<close>

text \<open>
  Numbers of the source are JavaScript doubles. In this section they are reals and no
  operation rounds: the model carries the claims about timers, which depend on no computed
  number beyond the fact that the loop ends. The claims about scheduled times and pitches
  are proved of the model of the next section, where every operation rounds. The
  module-level variables \<open>audioCtx\<close>, \<open>musicEnabled\<close>,
  \<open>nextNoteTime\<close> and \<open>timerID\<close> are fields of one record, threaded through every
  function. The same record carries what the browser holds for the module: the pending
  \<open>setTimeout\<close> callbacks (all of them call \<open>scheduler\<close>), the next timer handle, the
  number of \<open>Math.random()\<close> calls made so far, and the log of the slots handed to
  \<open>scheduleNote\<close>. \<open>isMusicPlaying\<close> is the React state of App.tsx that drives the toggle.
  In this section the Web Audio calls that build a note are taken to complete; what a
  throwing call does to the one-shot effects is modelled in the next section.
\<close>

definition TEMPO :: real where
  "TEMPO = 110"

definition LOOKAHEAD :: real where
  "LOOKAHEAD = 25"

definition SCHEDULE_AHEAD_TIME :: real where
  "SCHEDULE_AHEAD_TIME = 0.1"

definition SCALE :: "real list" where
  "SCALE = [261.63, 293.66, 329.63, 392.00, 440.00,
            523.25, 587.33, 659.26, 783.99, 880.00]"

text \<open>
  A slot is one call \<open>scheduleNote(time)\<close> that reached the rest decision: either the
  call returned early (a rest), or an oscillator was started at \<open>time\<close> with the frequency
  read from \<open>SCALE[noteIndex]\<close> (\<open>None\<close> is JavaScript's \<open>undefined\<close> of an index out
  of range).
\<close>

datatype slot = Rest real | Note real "real option"

fun slot_time :: "slot \<Rightarrow> real" where
  "slot_time (Rest t) = t"
| "slot_time (Note t f) = t"

record sound_state =
  audioCtx :: bool
  musicEnabled :: bool
  nextNoteTime :: real
  timerID :: "nat option"
  timers :: "nat list"
  nextHandle :: nat
  draws :: nat
  slots :: "slot list"
  isMusicPlaying :: bool

definition initial_sound :: sound_state where
  "initial_sound =
     \<lparr>audioCtx = False, musicEnabled = False, nextNoteTime = 0, timerID = None,
      timers = [], nextHandle = 1, draws = 0, slots = [], isMusicPlaying = False\<rparr>"

text \<open>
  \<open>Math.random()\<close>: the \<open>k\<close>-th call of the page returns \<open>rnd k\<close>. JavaScript
  promises \<open>0 \<le> rnd k < 1\<close>; the theorems state that where they need it.
\<close>

definition random :: "(nat \<Rightarrow> real) \<Rightarrow> sound_state \<Rightarrow> real \<times> sound_state" where
  "random rnd s = (rnd (draws s), s\<lparr>draws := Suc (draws s)\<rparr>)"

definition unit_draws :: "(nat \<Rightarrow> real) \<Rightarrow> bool" where
  "unit_draws rnd = (\<forall>k. 0 \<le> rnd k \<and> rnd k < 1)"

text \<open>
  \<open>getCtx\<close>: \<open>cap\<close> says whether the platform has an \<open>AudioContext\<close> class. The
  result is whether the returned context is non-null. \<open>resumeCtx\<close> adds a best-effort
  \<open>resume()\<close> whose rejection is logged; it changes nothing the model holds.
\<close>

definition getCtx :: "bool \<Rightarrow> sound_state \<Rightarrow> bool \<times> sound_state" where
  "getCtx cap s =
     (if \<not> audioCtx s
      then (if cap then (True, s\<lparr>audioCtx := True\<rparr>) else (False, s))
      else (True, s))"

definition resumeCtx :: "bool \<Rightarrow> sound_state \<Rightarrow> bool \<times> sound_state" where
  "resumeCtx cap s = getCtx cap s"

definition lookup :: "'a list \<Rightarrow> int \<Rightarrow> 'a option" where
  "lookup xs i = (if 0 \<le> i \<and> i < int (length xs) then Some (xs ! nat i) else None)"

definition scheduleNote :: "bool \<Rightarrow> (nat \<Rightarrow> real) \<Rightarrow> real \<Rightarrow> sound_state \<Rightarrow> sound_state" where
  "scheduleNote cap rnd time s0 =
     (let (ctx, s1) = getCtx cap s0 in
      if \<not> ctx then s1
      else
        let (r, s2) = random rnd s1 in
        if r < 0.2 then s2\<lparr>slots := slots s2 @ [Rest time]\<rparr>
        else
          let (r', s3) = random rnd s2;
              noteIndex = \<lfloor>r' * real (length SCALE)\<rfloor>;
              frequency = lookup SCALE noteIndex
          in s3\<lparr>slots := slots s3 @ [Note time frequency]\<rparr>)"

text \<open>The body of the \<open>while\<close> loop of \<open>scheduler\<close>: one slot, then the advance.\<close>

definition swing_of :: "real \<Rightarrow> real" where
  "swing_of r = r * 0.05 - 0.025"

definition scheduler_body :: "bool \<Rightarrow> (nat \<Rightarrow> real) \<Rightarrow> sound_state \<Rightarrow> sound_state" where
  "scheduler_body cap rnd s =
     (let s1 = scheduleNote cap rnd (nextNoteTime s) s;
          (r, s2) = random rnd s1;
          swing = swing_of r
      in s2\<lparr>nextNoteTime := nextNoteTime s2 + (60 / TEMPO + swing)\<rparr>)"

text \<open>
  The \<open>while\<close> loop itself. \<open>now\<close> is \<open>ctx.currentTime\<close> as read during this
  callback. The loop ends only if \<open>nextNoteTime\<close> passes the horizon, so it is a partial
  function: \<open>None\<close> is the loop that never ends.
\<close>

partial_function (option) scheduler_loop ::
  "bool \<Rightarrow> (nat \<Rightarrow> real) \<Rightarrow> real \<Rightarrow> sound_state \<Rightarrow> sound_state option" where
  "scheduler_loop cap rnd now s =
     (if nextNoteTime s < now + SCHEDULE_AHEAD_TIME
      then scheduler_loop cap rnd now (scheduler_body cap rnd s)
      else Some s)"

text \<open>
  \<open>window.setTimeout(scheduler, LOOKAHEAD)\<close> hands out a fresh positive handle and
  queues the callback; \<open>clearTimeout\<close> removes it from the queue.
\<close>

definition setTimeout :: "sound_state \<Rightarrow> nat \<times> sound_state" where
  "setTimeout s =
     (nextHandle s, s\<lparr>timers := timers s @ [nextHandle s], nextHandle := Suc (nextHandle s)\<rparr>)"

definition clearTimeout :: "nat \<Rightarrow> sound_state \<Rightarrow> sound_state" where
  "clearTimeout h s = s\<lparr>timers := removeAll h (timers s)\<rparr>"

definition scheduler :: "bool \<Rightarrow> (nat \<Rightarrow> real) \<Rightarrow> real \<Rightarrow> sound_state \<Rightarrow> sound_state option" where
  "scheduler cap rnd now s0 =
     (let (ctx, s1) = getCtx cap s0 in
      if \<not> ctx \<or> \<not> musicEnabled s1 then Some s1
      else
        case scheduler_loop cap rnd now s1 of
          None \<Rightarrow> None
        | Some s2 \<Rightarrow> (let (h, s3) = setTimeout s2 in Some (s3\<lparr>timerID := Some h\<rparr>)))"

text \<open>JavaScript's truthiness of \<open>timerID\<close>: \<open>null\<close> and \<open>0\<close> are falsy.\<close>

definition truthy :: "nat option \<Rightarrow> bool" where
  "truthy t = (case t of None \<Rightarrow> False | Some h \<Rightarrow> h \<noteq> 0)"

definition toggleBackgroundMusic ::
  "bool \<Rightarrow> (nat \<Rightarrow> real) \<Rightarrow> real \<Rightarrow> bool \<Rightarrow> sound_state \<Rightarrow> sound_state option" where
  "toggleBackgroundMusic cap rnd now enable s0 =
     (let (ctx, s1) = resumeCtx cap s0;
          s2 = s1\<lparr>musicEnabled := enable\<rparr>
      in
      if musicEnabled s2 then
        (if ctx then scheduler cap rnd now (s2\<lparr>nextNoteTime := now + 0.1\<rparr>) else Some s2)
      else
        (if truthy (timerID s2)
         then Some ((clearTimeout (the (timerID s2)) s2)\<lparr>timerID := None\<rparr>)
         else Some s2))"

text \<open>
  \<open>handleToggleMusic\<close> of App.tsx, the only caller: it flips \<open>isMusicPlaying\<close> and
  passes the new value on. Its \<open>playClick()\<close> obtains the audio context first.
\<close>

definition handleToggleMusic ::
  "bool \<Rightarrow> (nat \<Rightarrow> real) \<Rightarrow> real \<Rightarrow> sound_state \<Rightarrow> sound_state option" where
  "handleToggleMusic cap rnd now s0 =
     (let (ctx, s1) = resumeCtx cap s0;
          newState = \<not> isMusicPlaying s1;
          s2 = s1\<lparr>isMusicPlaying := newState\<rparr>
      in toggleBackgroundMusic cap rnd now newState s2)"

text \<open>
  What can happen to the module, each with the audio clock's reading at that moment: a
  direct call of the exported toggle, a click on the music button, or a pending timer
  firing (the browser takes the callback off its queue, then runs \<open>scheduler\<close>). A
  handle that is not pending cannot fire.
\<close>

datatype event = Toggle bool real | Click real | Fire nat real

fun step :: "bool \<Rightarrow> (nat \<Rightarrow> real) \<Rightarrow> event \<Rightarrow> sound_state \<Rightarrow> sound_state option" where
  "step cap rnd (Toggle enable now) s = toggleBackgroundMusic cap rnd now enable s"
| "step cap rnd (Click now) s = handleToggleMusic cap rnd now s"
| "step cap rnd (Fire h now) s =
     (if h \<in> set (timers s) then scheduler cap rnd now (clearTimeout h s) else Some s)"

fun run :: "bool \<Rightarrow> (nat \<Rightarrow> real) \<Rightarrow> event list \<Rightarrow> sound_state \<Rightarrow> sound_state option" where
  "run cap rnd [] s = Some s"
| "run cap rnd (e # es) s =
     (case step cap rnd e s of None \<Rightarrow> None | Some s' \<Rightarrow> run cap rnd es s')"

fun is_fire :: "event \<Rightarrow> bool" where
  "is_fire (Fire h now) = True"
| "is_fire e = False"

fun is_ui :: "event \<Rightarrow> bool" where
  "is_ui (Toggle enable now) = False"
| "is_ui e = True"

definition baseInterval :: real where
  "baseInterval = 60 / TEMPO"

definition maxSwing :: real where
  "maxSwing = 0.025"

fun gaps :: "real list \<Rightarrow> real list" where
  "gaps (a # b # ts) = (b - a) # gaps (b # ts)"
| "gaps ts = []"

text \<open>
  What holds between events when only the music button drives the toggle: the button state
  mirrors \<open>musicEnabled\<close>, and the one pending callback, if any, is the one \<open>timerID\<close>
  names.
\<close>

definition ui_inv :: "bool \<Rightarrow> sound_state \<Rightarrow> bool" where
  "ui_inv cap s =
     (isMusicPlaying s = musicEnabled s \<and> (audioCtx s \<longrightarrow> cap) \<and> 0 < nextHandle s \<and>
      (if musicEnabled s \<and> cap
       then audioCtx s \<and> (\<exists>h>0. timerID s = Some h \<and> timers s = [h])
       else timerID s = None \<and> timers s = []))"

section \<open>Sound service: the scheduler in double-precision arithmetic\<close>

text \<open>
  The same functions of src/services/soundService.ts, with every number a double: each
  decimal literal and the result of each \<open>+\<close>, \<open>-\<close>, \<open>*\<close> and \<open>/\<close> is rounded by
  \<open>fl\<close>. Comparisons and \<open>Math.floor\<close> are exact on doubles.

  \<open>fl64\<close> is the rounding of IEEE 754 binary64, to nearest with ties to even: 53
  significant bits, and below \<open>2^-1022\<close> the fixed spacing \<open>2^-1074\<close> of the subnormal
  numbers. Overflow to \<open>Infinity\<close> is left out (\<open>fl64\<close> is unbounded above); the
  theorems keep every number below \<open>2^34\<close>. \<open>fl64\<close> specifies an operation of the
  JavaScript engine, it is not code of this repository.
\<close>

definition round_even :: "real \<Rightarrow> int" where
  "round_even y =
     (let f = \<lfloor>y\<rfloor> in
      if y - of_int f < 1 / 2 then f
      else if 1 / 2 < y - of_int f then f + 1
      else if even f then f else f + 1)"

definition fl64 :: "real \<Rightarrow> real" where
  "fl64 x =
     (if x = 0 then 0
      else
        let e = max (\<lfloor>log 2 \<bar>x\<bar>\<rfloor> - 52) (- 1074)
        in of_int (round_even (x / 2 powi e)) * 2 powi e)"

text \<open>
  What the theorems use of a rounding: the relative error is at most \<open>2^-53\<close> (plus half
  the subnormal spacing), and a non-negative number rounds to a non-negative number.
  \<open>fl64\<close> has both properties; so has the identity, for which the loop body below is
  the real-valued one of the first section.
\<close>

definition rounding :: "(real \<Rightarrow> real) \<Rightarrow> bool" where
  "rounding fl =
     ((\<forall>x. \<bar>fl x - x\<bar> \<le> \<bar>x\<bar> / 2 ^ 53 + 1 / 2 ^ 1075) \<and> (\<forall>x. 0 \<le> fl \<bar>x\<bar>))"

text \<open>
  \<open>Math.random()\<close> returns a double in \<open>[0, 1)\<close>; the largest of them is
  \<open>1 - 2^-53\<close>.
\<close>

definition double_draws :: "(nat \<Rightarrow> real) \<Rightarrow> bool" where
  "double_draws rnd = (\<forall>k. 0 \<le> rnd k \<and> rnd k \<le> 1 - 1 / 2 ^ 53)"

text \<open>The array \<open>SCALE\<close> holds the doubles its literals denote.\<close>

definition SCALE64 :: "(real \<Rightarrow> real) \<Rightarrow> real list" where
  "SCALE64 fl = map fl SCALE"

definition scheduleNote64 ::
  "(real \<Rightarrow> real) \<Rightarrow> bool \<Rightarrow> (nat \<Rightarrow> real) \<Rightarrow> real \<Rightarrow> sound_state \<Rightarrow> sound_state" where
  "scheduleNote64 fl cap rnd time s0 =
     (let (ctx, s1) = getCtx cap s0 in
      if \<not> ctx then s1
      else
        let (r, s2) = random rnd s1 in
        if r < fl 0.2 then s2\<lparr>slots := slots s2 @ [Rest time]\<rparr>
        else
          let (r', s3) = random rnd s2;
              noteIndex = \<lfloor>fl (r' * real (length (SCALE64 fl)))\<rfloor>;
              frequency = lookup (SCALE64 fl) noteIndex
          in s3\<lparr>slots := slots s3 @ [Note time frequency]\<rparr>)"

text \<open>\<open>(Math.random() * 0.05) - 0.025\<close>: a product, then a difference.\<close>

definition swing64 :: "(real \<Rightarrow> real) \<Rightarrow> real \<Rightarrow> real" where
  "swing64 fl r = fl (fl (r * fl 0.05) - fl 0.025)"

text \<open>
  \<open>nextNoteTime += (60.0 / TEMPO) + swing\<close>: the quotient, the inner sum and the outer
  sum are each rounded.
\<close>

definition scheduler_body64 ::
  "(real \<Rightarrow> real) \<Rightarrow> bool \<Rightarrow> (nat \<Rightarrow> real) \<Rightarrow> sound_state \<Rightarrow> sound_state" where
  "scheduler_body64 fl cap rnd s =
     (let s1 = scheduleNote64 fl cap rnd (nextNoteTime s) s;
          (r, s2) = random rnd s1;
          swing = swing64 fl r
      in s2\<lparr>nextNoteTime := fl (nextNoteTime s2 + fl (fl (60 / TEMPO) + swing))\<rparr>)"

partial_function (option) scheduler_loop64 ::
  "(real \<Rightarrow> real) \<Rightarrow> bool \<Rightarrow> (nat \<Rightarrow> real) \<Rightarrow> real \<Rightarrow> sound_state \<Rightarrow> sound_state option" where
  "scheduler_loop64 fl cap rnd now s =
     (if nextNoteTime s < fl (now + fl SCHEDULE_AHEAD_TIME)
      then scheduler_loop64 fl cap rnd now (scheduler_body64 fl cap rnd s)
      else Some s)"

definition scheduler64 ::
  "(real \<Rightarrow> real) \<Rightarrow> bool \<Rightarrow> (nat \<Rightarrow> real) \<Rightarrow> real \<Rightarrow> sound_state \<Rightarrow> sound_state option" where
  "scheduler64 fl cap rnd now s0 =
     (let (ctx, s1) = getCtx cap s0 in
      if \<not> ctx \<or> \<not> musicEnabled s1 then Some s1
      else
        case scheduler_loop64 fl cap rnd now s1 of
          None \<Rightarrow> None
        | Some s2 \<Rightarrow> (let (h, s3) = setTimeout s2 in Some (s3\<lparr>timerID := Some h\<rparr>)))"

definition toggleBackgroundMusic64 ::
  "(real \<Rightarrow> real) \<Rightarrow> bool \<Rightarrow> (nat \<Rightarrow> real) \<Rightarrow> real \<Rightarrow> bool \<Rightarrow> sound_state \<Rightarrow> sound_state option" where
  "toggleBackgroundMusic64 fl cap rnd now enable s0 =
     (let (ctx, s1) = resumeCtx cap s0;
          s2 = s1\<lparr>musicEnabled := enable\<rparr>
      in
      if musicEnabled s2 then
        (if ctx then scheduler64 fl cap rnd now (s2\<lparr>nextNoteTime := fl (now + fl 0.1)\<rparr>)
         else Some s2)
      else
        (if truthy (timerID s2)
         then Some ((clearTimeout (the (timerID s2)) s2)\<lparr>timerID := None\<rparr>)
         else Some s2))"

definition handleToggleMusic64 ::
  "(real \<Rightarrow> real) \<Rightarrow> bool \<Rightarrow> (nat \<Rightarrow> real) \<Rightarrow> real \<Rightarrow> sound_state \<Rightarrow> sound_state option" where
  "handleToggleMusic64 fl cap rnd now s0 =
     (let (ctx, s1) = resumeCtx cap s0;
          newState = \<not> isMusicPlaying s1;
          s2 = s1\<lparr>isMusicPlaying := newState\<rparr>
      in toggleBackgroundMusic64 fl cap rnd now newState s2)"

fun step64 ::
  "(real \<Rightarrow> real) \<Rightarrow> bool \<Rightarrow> (nat \<Rightarrow> real) \<Rightarrow> event \<Rightarrow> sound_state \<Rightarrow> sound_state option" where
  "step64 fl cap rnd (Toggle enable now) s = toggleBackgroundMusic64 fl cap rnd now enable s"
| "step64 fl cap rnd (Click now) s = handleToggleMusic64 fl cap rnd now s"
| "step64 fl cap rnd (Fire h now) s =
     (if h \<in> set (timers s) then scheduler64 fl cap rnd now (clearTimeout h s) else Some s)"

fun run64 ::
  "(real \<Rightarrow> real) \<Rightarrow> bool \<Rightarrow> (nat \<Rightarrow> real) \<Rightarrow> event list \<Rightarrow> sound_state \<Rightarrow> sound_state option" where
  "run64 fl cap rnd [] s = Some s"
| "run64 fl cap rnd (e # es) s =
     (case step64 fl cap rnd e s of None \<Rightarrow> None | Some s' \<Rightarrow> run64 fl cap rnd es s')"

text \<open>
  The audio clock of an event. The theorems take it between 0 and \<open>horizon\<close> seconds
  (136 years of audio). Near \<open>horizon\<close> two neighbouring doubles are \<open>2^-20\<close> seconds
  apart, so a rounded sum is off by up to \<open>2^-21\<close>: \<open>slack\<close> is the room left for that
  in a gap between two scheduled times.
\<close>

fun event_time :: "event \<Rightarrow> real" where
  "event_time (Toggle enable now) = now"
| "event_time (Click now) = now"
| "event_time (Fire h now) = now"

definition horizon :: real where
  "horizon = 2 ^ 32"

definition slack :: real where
  "slack = 1 / 2 ^ 20"

definition timely_fire :: "event \<Rightarrow> bool" where
  "timely_fire e = (is_fire e \<and> 0 \<le> event_time e \<and> event_time e \<le> horizon)"

definition in_swing64 :: "real \<Rightarrow> bool" where
  "in_swing64 g = (baseInterval - maxSwing - slack \<le> g \<and> g \<le> baseInterval + maxSwing + slack)"

text \<open>
  The slots logged so far, followed by the slot that is due next, keep every consecutive
  gap inside the swing range; \<open>sched_inv\<close> adds what the loop needs, \<open>run_inv\<close> is what
  holds between the events of a run, \<open>live_inv\<close> what holds there when the platform has
  an audio context.
\<close>

definition chain64 :: "sound_state \<Rightarrow> bool" where
  "chain64 s = list_all in_swing64 (gaps (map slot_time (slots s) @ [nextNoteTime s]))"

definition sched_inv :: "sound_state \<Rightarrow> bool" where
  "sched_inv s =
     (chain64 s \<and> audioCtx s \<and> 0 \<le> nextNoteTime s \<and> nextNoteTime s \<le> horizon + 2)"

definition run_inv :: "bool \<Rightarrow> sound_state \<Rightarrow> bool" where
  "run_inv cap s = (chain64 s \<and> (audioCtx s \<or> cap \<longrightarrow> sched_inv s))"

definition live_inv :: "sound_state \<Rightarrow> bool" where
  "live_inv s = (sched_inv s \<and> musicEnabled s \<and> timers s \<noteq> [])"

section \<open>Sound service: the one-shot effects (src/services/soundService.ts)\<close>

text \<open>
  Every call into the Web Audio API may throw. An effect is modelled by the sequence of
  API calls its body makes, in source order; \<open>throws P done c\<close> says whether call \<open>c\<close>
  throws after the calls \<open>done\<close> have completed. Reading \<open>ctx.currentTime\<close>,
  \<open>ctx.state\<close> or \<open>ctx.destination\<close> and writing into the noise buffer's
  \<open>Float32Array\<close> are not calls that throw. The state of an effect is the module's
  \<open>audioCtx\<close> (whether it is set) and the calls completed so far.
\<close>

datatype audio_call =
    NewAudioContext | Resume
  | CreateOscillator | CreateGain | CreateBiquadFilter
  | CreateBuffer | GetChannelData | CreateBufferSource
  | Connect | SetType | SetValue | SetBuffer
  | SetValueAtTime | ExponentialRampToValueAtTime | LinearRampToValueAtTime
  | Start | Stop

record audio_platform =
  hasAudioContext :: bool
  suspended :: bool
  throws :: "audio_call list \<Rightarrow> audio_call \<Rightarrow> bool"

record fx_state =
  fx_ctx :: bool
  fx_trace :: "audio_call list"

datatype 'a completion = Normal 'a | Thrown

fun perform :: "audio_platform \<Rightarrow> audio_call list \<Rightarrow> fx_state \<Rightarrow> unit completion \<times> fx_state" where
  "perform P [] st = (Normal (), st)"
| "perform P (c # cs) st =
     (if throws P (fx_trace st) c then (Thrown, st)
      else perform P cs (st\<lparr>fx_trace := fx_trace st @ [c]\<rparr>))"

definition fx_getCtx :: "audio_platform \<Rightarrow> fx_state \<Rightarrow> bool completion \<times> fx_state" where
  "fx_getCtx P st =
     (if \<not> fx_ctx st then
        (if hasAudioContext P then
           (case perform P [NewAudioContext] st of
              (Thrown, st') \<Rightarrow> (Thrown, st')
            | (Normal u, st') \<Rightarrow> (Normal True, st'\<lparr>fx_ctx := True\<rparr>))
         else (Normal False, st))
      else (Normal True, st))"

definition fx_resumeCtx :: "audio_platform \<Rightarrow> fx_state \<Rightarrow> bool completion \<times> fx_state" where
  "fx_resumeCtx P st =
     (case fx_getCtx P st of
        (Thrown, st') \<Rightarrow> (Thrown, st')
      | (Normal ctx, st') \<Rightarrow>
          if ctx \<and> suspended P then
            (case perform P [Resume] st' of
               (Thrown, st'') \<Rightarrow> (Thrown, st'')
             | (Normal u, st'') \<Rightarrow> (Normal ctx, st''))
          else (Normal ctx, st'))"

text \<open>
  The common shape of the six exported effects:
  \<^verbatim>\<open>try { const ctx = resumeCtx(); if (!ctx) return; ...body... } catch (e) { }\<close>.
  \<open>guarded\<close> is the part inside \<open>try\<close>; \<open>try_catch\<close> is the empty handler.
\<close>

definition guarded :: "audio_platform \<Rightarrow> audio_call list \<Rightarrow> fx_state \<Rightarrow> unit completion \<times> fx_state" where
  "guarded P body st =
     (case fx_resumeCtx P st of
        (Thrown, st') \<Rightarrow> (Thrown, st')
      | (Normal ctx, st') \<Rightarrow> if \<not> ctx then (Normal (), st') else perform P body st')"

definition try_catch :: "unit completion \<times> fx_state \<Rightarrow> unit completion \<times> fx_state" where
  "try_catch r = (case r of (Thrown, st) \<Rightarrow> (Normal (), st) | (Normal u, st) \<Rightarrow> (Normal u, st))"

definition click_body :: "audio_call list" where
  "click_body =
     [CreateOscillator, CreateGain, Connect, Connect, SetType,
      SetValueAtTime, ExponentialRampToValueAtTime,
      SetValueAtTime, ExponentialRampToValueAtTime, Start, Stop]"

definition hover_body :: "audio_call list" where
  "hover_body =
     [CreateOscillator, CreateGain, Connect, Connect, SetType,
      SetValueAtTime, SetValueAtTime, ExponentialRampToValueAtTime, Start, Stop]"

definition capture_body :: "audio_call list" where
  "capture_body =
     [CreateBuffer, GetChannelData, CreateBufferSource, SetBuffer, CreateGain,
      CreateBiquadFilter, SetType, SetValue, Connect, Connect, Connect,
      SetValueAtTime, ExponentialRampToValueAtTime, Start]"

definition sweep_body :: "audio_call list" where
  "sweep_body =
     [CreateOscillator, CreateGain, Connect, Connect, SetType,
      SetValueAtTime, ExponentialRampToValueAtTime,
      SetValueAtTime, LinearRampToValueAtTime, Start, Stop]"

definition success_note :: "audio_call list" where
  "success_note =
     [CreateOscillator, CreateGain, Connect, Connect, SetType, SetValue,
      SetValueAtTime, LinearRampToValueAtTime, ExponentialRampToValueAtTime, Start, Stop]"

definition success_body :: "audio_call list" where
  "success_body = concat (replicate 4 success_note)"

definition playClick :: "audio_platform \<Rightarrow> fx_state \<Rightarrow> unit completion \<times> fx_state" where
  "playClick P st = try_catch (guarded P click_body st)"

definition playHover :: "audio_platform \<Rightarrow> fx_state \<Rightarrow> unit completion \<times> fx_state" where
  "playHover P st = try_catch (guarded P hover_body st)"

definition playCapture :: "audio_platform \<Rightarrow> fx_state \<Rightarrow> unit completion \<times> fx_state" where
  "playCapture P st = try_catch (guarded P capture_body st)"

definition playCameraStart :: "audio_platform \<Rightarrow> fx_state \<Rightarrow> unit completion \<times> fx_state" where
  "playCameraStart P st = try_catch (guarded P sweep_body st)"

definition playCameraStop :: "audio_platform \<Rightarrow> fx_state \<Rightarrow> unit completion \<times> fx_state" where
  "playCameraStop P st = try_catch (guarded P sweep_body st)"

definition playSuccess :: "audio_platform \<Rightarrow> fx_state \<Rightarrow> unit completion \<times> fx_state" where
  "playSuccess P st = try_catch (guarded P success_body st)"

text \<open>The spec's \<open>playEffect(kind)\<close> names the six exported functions by their kind.\<close>

datatype effect_kind = click | hover | shutter | cameraStart | cameraStop | success

fun playEffect :: "effect_kind \<Rightarrow> audio_platform \<Rightarrow> fx_state \<Rightarrow> unit completion \<times> fx_state" where
  "playEffect click = playClick"
| "playEffect hover = playHover"
| "playEffect shutter = playCapture"
| "playEffect cameraStart = playCameraStart"
| "playEffect cameraStop = playCameraStop"
| "playEffect success = playSuccess"

section \<open>The form component (src/components/RoastForm.tsx)\<close>

text \<open>
  Strings the user types are lists of UTF-16 code units, as JavaScript strings are; file
  contents are lists of bytes; names, MIME types and base64 text are ASCII strings.
\<close>

type_synonym code_unit = nat

datatype RoastMode = GENTLE_ROAST | COMPLIMENT | WHOLESOME_ROAST

datatype RoastLanguage = English | Hindi | Roman_Urdu

record js_file =
  file_name :: string
  file_type :: string
  file_bytes :: "nat list"

text \<open>
  The texts handed to \<open>alert\<close>, by their headline: the string literals of the source
  carry an emoji and a paragraph of advice each.
  \<^item> \<open>ApiUnsupported\<close>: "Camera API is not supported in this browser."
  \<^item> \<open>CouldNotAccess\<close>: "Could not access camera." (the initial value of \<open>errorMessage\<close>)
  \<^item> \<open>BusyOrNotReadable\<close>: "Camera Busy or Not Readable ..."
  \<^item> \<open>PermissionDenied\<close>: "Camera Permission Denied ... Please allow camera access ..."
  \<^item> \<open>NoCameraFound\<close>: "No Camera Found ..."
  \<^item> \<open>ConstraintsError\<close>: "Camera Constraints Error ..."
  \<^item> \<open>HardwareError\<close>: "Hardware Error ..."
  \<^item> \<open>SecurityError\<close>: "Security Error ..."
  \<^item> \<open>NeedInput\<close>: "Please provide either a photo or a description!"
\<close>

datatype alert_text =
    ApiUnsupported | CouldNotAccess | BusyOrNotReadable | PermissionDenied
  | NoCameraFound | ConstraintsError | HardwareError | SecurityError | NeedInput

datatype sound = ClickSound | HoverSound | CaptureSound | CameraStartSound | CameraStopSound

record js_error =
  err_name :: string
  err_message :: string

text \<open>
  The component's state and refs, with what the page shows of its effects: the media tracks
  that are live (a stopped track leaves the set), the alerts raised, the sound effects
  requested and the \<open>File\<close> objects built by \<open>capturePhoto\<close>. A stream is the list of
  its tracks.
\<close>

type_synonym track = nat

record roast_form =
  selectedMode :: RoastMode
  selectedLanguage :: RoastLanguage
  textInput :: "code_unit list"
  selectedFile :: "js_file option"
  isCameraOpen :: bool
  isImageLoading :: bool
  focusPoint :: "(real \<times> real \<times> bool) option"
  streamRef :: "track list option"
  live :: "track set"
  alerts :: "alert_text list"
  played :: "sound list"
  captured :: "js_file list"

definition alert :: "alert_text \<Rightarrow> roast_form \<Rightarrow> roast_form" where
  "alert a s = s\<lparr>alerts := alerts s @ [a]\<rparr>"

definition play :: "sound \<Rightarrow> roast_form \<Rightarrow> roast_form" where
  "play a s = s\<lparr>played := played s @ [a]\<rparr>"

definition stop_tracks :: "track list \<Rightarrow> roast_form \<Rightarrow> roast_form" where
  "stop_tracks ts s = s\<lparr>live := live s - set ts\<rparr>"

definition stopCamera :: "roast_form \<Rightarrow> roast_form" where
  "stopCamera s =
     (let s1 = (case streamRef s of
                  Some ts \<Rightarrow> (stop_tracks ts s)\<lparr>streamRef := None\<rparr>
                | None \<Rightarrow> s)
      in s1\<lparr>isCameraOpen := False, focusPoint := None\<rparr>)"

text \<open>\<open>String.prototype.includes\<close>.\<close>

fun str_includes :: "string \<Rightarrow> string \<Rightarrow> bool" where
  "str_includes [] pat = (pat = [])"
| "str_includes (c # cs) pat = (take (length pat) (c # cs) = pat \<or> str_includes cs pat)"

text \<open>The \<open>if\<close>/\<open>else if\<close> chain of the outer \<open>catch\<close> of \<open>startCamera\<close>.\<close>

definition errorMessage :: "js_error \<Rightarrow> alert_text" where
  "errorMessage err =
     (if err_name err = ''NotReadableError'' \<or>
         str_includes (err_message err) ''Could not start video source''
      then BusyOrNotReadable
      else if err_name err = ''NotAllowedError'' \<or> err_name err = ''PermissionDeniedError''
      then PermissionDenied
      else if err_name err = ''NotFoundError'' \<or> err_name err = ''DevicesNotFoundError''
      then NoCameraFound
      else if err_name err = ''OverconstrainedError'' then ConstraintsError
      else if err_name err = ''AbortError'' then HardwareError
      else if err_name err = ''SecurityError'' then SecurityError
      else CouldNotAccess)"

text \<open>
  What the browser answers during one \<open>startCamera\<close>: whether
  \<open>navigator.mediaDevices.getUserMedia\<close> exists, and the outcome of the request with
  \<open>facingMode: "user"\<close> and of the fallback request \<open>video: true\<close> (\<open>Inl\<close> is the
  rejection). The focus step after a successful acquisition is wrapped in its own
  \<open>try\<close>/\<open>catch\<close> and touches nothing the model holds.
\<close>

record camera_env =
  hasGetUserMedia :: bool
  attempt_user :: "js_error + track list"
  attempt_any :: "js_error + track list"

text \<open>
  \<open>startCamera\<close> is \<open>async\<close>: the part before the first \<open>await\<close> runs at the click,
  the rest runs when the awaited delay and requests have settled. Other events of the
  page can happen in between.
\<close>

definition startCamera_begin :: "roast_form \<Rightarrow> roast_form" where
  "startCamera_begin s0 =
     (let s = play ClickSound s0 in
      case streamRef s of
        Some ts \<Rightarrow> (stop_tracks ts s)\<lparr>streamRef := None\<rparr>
      | None \<Rightarrow> s)"

definition acquire :: "camera_env \<Rightarrow> track list option" where
  "acquire env =
     (let stream = (case attempt_user env of Inr ts \<Rightarrow> Some ts | Inl e \<Rightarrow> None) in
      case stream of
        Some ts \<Rightarrow> Some ts
      | None \<Rightarrow> (case attempt_any env of Inr ts \<Rightarrow> Some ts | Inl e \<Rightarrow> None))"

definition startCamera_resume :: "camera_env \<Rightarrow> roast_form \<Rightarrow> roast_form" where
  "startCamera_resume env s =
     (if \<not> hasGetUserMedia env then alert ApiUnsupported s
      else
        case acquire env of
          None \<Rightarrow>
            (let err = \<lparr>err_name = ''Error'',
                        err_message = ''Could not initialize any camera source.''\<rparr>
             in stopCamera (alert (errorMessage err) s))
        | Some ts \<Rightarrow>
            play CameraStartSound
              (s\<lparr>live := live s \<union> set ts, streamRef := Some ts, isCameraOpen := True\<rparr>))"

definition startCamera :: "camera_env \<Rightarrow> roast_form \<Rightarrow> roast_form" where
  "startCamera env s = startCamera_resume env (startCamera_begin s)"

text \<open>The cleanup of the \<open>useEffect\<close> with no dependencies: it runs when the form unmounts.\<close>

definition unmount_cleanup :: "roast_form \<Rightarrow> roast_form" where
  "unmount_cleanup s = (case streamRef s of Some ts \<Rightarrow> stop_tracks ts s | None \<Rightarrow> s)"

subsection \<open>Still capture\<close>

text \<open>
  The video element shows a frame of \<open>videoWidth\<close> by \<open>videoHeight\<close> pixels, read by
  column and row. The canvas transform is kept as the two axis maps
  \<open>x \<mapsto> a * x + e\<close> and \<open>y \<mapsto> d * y + f\<close>: \<open>translate\<close> and \<open>scale\<close> are the only
  calls made on it. \<open>drawImage\<close> draws the frame at its native size; with unit scales the
  source pixel \<open>[x, x + 1]\<close> lands on one canvas pixel, found by \<open>source_of\<close>. A canvas
  pixel nothing lands on stays transparent (\<open>None\<close>).
\<close>

type_synonym pixel = nat

record video =
  videoWidth :: nat
  videoHeight :: nat
  frame :: "nat \<Rightarrow> nat \<Rightarrow> pixel"

record transform =
  t_a :: int
  t_d :: int
  t_e :: int
  t_f :: int

definition identity_transform :: transform where
  "identity_transform = \<lparr>t_a = 1, t_d = 1, t_e = 0, t_f = 0\<rparr>"

definition translate :: "int \<Rightarrow> int \<Rightarrow> transform \<Rightarrow> transform" where
  "translate x y m = m\<lparr>t_e := t_e m + t_a m * x, t_f := t_f m + t_d m * y\<rparr>"

definition scale :: "int \<Rightarrow> int \<Rightarrow> transform \<Rightarrow> transform" where
  "scale x y m = m\<lparr>t_a := t_a m * x, t_d := t_d m * y\<rparr>"

definition source_of :: "int \<Rightarrow> int \<Rightarrow> nat \<Rightarrow> int" where
  "source_of a e X = (if a < 0 then e - 1 - int X else int X - e)"

definition sample :: "video \<Rightarrow> int \<Rightarrow> int \<Rightarrow> pixel option" where
  "sample v x y =
     (if 0 \<le> x \<and> x < int (videoWidth v) \<and> 0 \<le> y \<and> y < int (videoHeight v)
      then Some (frame v (nat x) (nat y)) else None)"

definition drawImage :: "transform \<Rightarrow> video \<Rightarrow> nat \<Rightarrow> nat \<Rightarrow> pixel option list list" where
  "drawImage m v w h =
     map (\<lambda>Y. map (\<lambda>X. sample v (source_of (t_a m) (t_e m) X) (source_of (t_d m) (t_f m) Y))
                [0..<w])
         [0..<h]"

text \<open>
  What \<open>capturePhoto\<close> finds: the frame on the video element, whether
  \<open>canvas.getContext('2d')\<close> gives a context, and the encoder behind \<open>canvas.toBlob\<close>
  (the JPEG bytes of a raster, or \<open>null\<close>). The video and canvas elements are rendered
  only while \<open>isCameraOpen\<close> holds, so their refs are set exactly then. The callback of
  \<open>toBlob\<close> is taken to run before any other event.
\<close>

record capture_env =
  video_now :: video
  context2d :: bool
  toBlob :: "pixel option list list \<Rightarrow> nat list option"

definition capturePhoto :: "capture_env \<Rightarrow> roast_form \<Rightarrow> roast_form" where
  "capturePhoto env s0 =
     (let s = play CaptureSound s0 in
      if isCameraOpen s then
        if context2d env then
          (let v = video_now env;
               width = videoWidth v;
               height = videoHeight v;
               m = scale (- 1) 1 (translate (int width) 0 identity_transform);
               raster = drawImage m v width height
           in case toBlob env raster of
                None \<Rightarrow> s
              | Some blob \<Rightarrow>
                  (let s1 = stopCamera (s\<lparr>isImageLoading := True\<rparr>);
                       f = \<lparr>file_name = ''camera-capture.jpg'', file_type = ''image/jpeg'',
                            file_bytes = blob\<rparr>
                   in s1\<lparr>selectedFile := Some f, captured := captured s1 @ [f]\<rparr>))
        else s
      else s)"

text \<open>
  The left-right mirror of a frame, stated directly: as wide and as high as the frame, with
  column \<open>x\<close> showing the frame's column \<open>W - 1 - x\<close>.
\<close>

definition mirrored :: "video \<Rightarrow> pixel option list list" where
  "mirrored v =
     map (\<lambda>y. map (\<lambda>x. Some (frame v (videoWidth v - 1 - x) y)) [0..<videoWidth v])
         [0..<videoHeight v]"

subsection \<open>Submitting\<close>

text \<open>
  \<open>String.prototype.trim\<close> strips the code units of ECMAScript's WhiteSpace and
  LineTerminator productions from both ends.
\<close>

definition is_space :: "code_unit \<Rightarrow> bool" where
  "is_space c =
     (c \<in> {0x09, 0x0A, 0x0B, 0x0C, 0x0D, 0x20, 0xA0, 0x1680, 0x2028, 0x2029, 0x202F,
            0x205F, 0x3000, 0xFEFF} \<or> (0x2000 \<le> c \<and> c \<le> 0x200A))"

definition trim :: "code_unit list \<Rightarrow> code_unit list" where
  "trim t = rev (dropWhile is_space (rev (dropWhile is_space t)))"

text \<open>
  \<open>handleSubmit\<close> returns the state and the arguments of its \<open>onSubmit\<close> call, if it
  makes one. \<open>submit_disabled\<close> is the \<open>disabled\<close> attribute of the submit button.
\<close>

definition handleSubmit ::
  "roast_form \<Rightarrow> roast_form \<times> (RoastMode \<times> RoastLanguage \<times> code_unit list \<times> js_file option) option" where
  "handleSubmit s =
     (if trim (textInput s) = [] \<and> selectedFile s = None
      then (alert NeedInput s, None)
      else (play ClickSound s,
            Some (selectedMode s, selectedLanguage s, textInput s, selectedFile s)))"

definition submit_disabled :: "bool \<Rightarrow> roast_form \<Rightarrow> bool" where
  "submit_disabled isLoading s =
     (isLoading \<or> isImageLoading s \<or> (textInput s = [] \<and> selectedFile s = None))"

section \<open>The generative backend call (geminiService, in src/constants.ts)\<close>

text \<open>
  \<open>FileReader.readAsDataURL\<close> is the platform's: it answers with
  \<open>data:<type>;base64,<payload>\<close>, the payload being the RFC 4648 base64 text of the
  bytes, or it fails. Bytes are numbers below 256.
\<close>

definition b64_alphabet :: string where
  "b64_alphabet = ''ABCDEFGHIJKLMNOPQRSTUVWXYZabcdefghijklmnopqrstuvwxyz0123456789+/''"

definition b64_char :: "nat \<Rightarrow> char" where
  "b64_char n = b64_alphabet ! (n mod 64)"

fun base64 :: "nat list \<Rightarrow> string" where
  "base64 (a # b # c # bs) =
     [b64_char (a div 4), b64_char ((a mod 4) * 16 + b div 16),
      b64_char ((b mod 16) * 4 + c div 64), b64_char (c mod 64)] @ base64 bs"
| "base64 [a, b] =
     [b64_char (a div 4), b64_char ((a mod 4) * 16 + b div 16),
      b64_char ((b mod 16) * 4), CHR ''='']"
| "base64 [a] = [b64_char (a div 4), b64_char ((a mod 4) * 16), CHR ''='', CHR ''='']"
| "base64 [] = []"



text \<open>\<open>String.prototype.split\<close> with a one-character separator.\<close>

fun split :: "char \<Rightarrow> string \<Rightarrow> string list" where
  "split sep [] = [[]]"
| "split sep (c # cs) =
     (if c = sep then [] # split sep cs
      else (case split sep cs of w # ws \<Rightarrow> (c # w) # ws | [] \<Rightarrow> [[c]]))"







section \<open>Concrete inputs\<close>

text \<open>Inputs on which the theorems below are evaluated.\<close>

definition half_draws :: "nat \<Rightarrow> real" where
  "half_draws k = 1 / 2"




definition initial_form :: roast_form where
  "initial_form =
     \<lparr>selectedMode = GENTLE_ROAST, selectedLanguage = English, textInput = [],
      selectedFile = None, isCameraOpen = False, isImageLoading = False, focusPoint = None,
      streamRef = None, live = {}, alerts = [], played = [], captured = []\<rparr>"

definition open_form :: roast_form where
  "open_form = initial_form\<lparr>isCameraOpen := True, streamRef := Some [7], live := {7}\<rparr>"

definition denied :: js_error where
  "denied = \<lparr>err_name = ''NotAllowedError'', err_message = ''Permission denied''\<rparr>"

definition env_denied :: camera_env where
  "env_denied = \<lparr>hasGetUserMedia = True, attempt_user = Inl denied, attempt_any = Inl denied\<rparr>"

definition env_granted :: camera_env where
  "env_granted = \<lparr>hasGetUserMedia = True, attempt_user = Inr [7], attempt_any = Inl denied\<rparr>"

definition blank_video :: video where
  "blank_video = \<lparr>videoWidth = 0, videoHeight = 0, frame = (\<lambda>x y. 0)\<rparr>"

definition two_pixel_video :: video where
  "two_pixel_video = \<lparr>videoWidth = 2, videoHeight = 1, frame = (\<lambda>x y. 10 * (x + 1))\<rparr>"

text \<open>An encoder that, like the browser's, has no blob for a canvas without pixels.\<close>

definition jpeg_encoder :: "pixel option list list \<Rightarrow> nat list option" where
  "jpeg_encoder raster = (if raster = [] then None else Some [255, 216, 255])"

definition capture_blank :: capture_env where
  "capture_blank = \<lparr>video_now = blank_video, context2d = True, toBlob = jpeg_encoder\<rparr>"

definition capture_two :: capture_env where
  "capture_two = \<lparr>video_now = two_pixel_video, context2d = True, toBlob = jpeg_encoder\<rparr>"

definition camera_jpeg :: js_file where
  "camera_jpeg =
     \<lparr>file_name = ''camera-capture.jpg'', file_type = ''image/jpeg'',
      file_bytes = [255, 216, 255]\<rparr>"

definition silent_platform :: audio_platform where
  "silent_platform =
     \<lparr>hasAudioContext = False, suspended = False, throws = (\<lambda>done c. False)\<rparr>"

definition faulty_platform :: audio_platform where
  "faulty_platform =
     \<lparr>hasAudioContext = True, suspended = True, throws = (\<lambda>done c. c = CreateGain)\<rparr>"

definition fx_initial :: fx_state where
  "fx_initial = \<lparr>fx_ctx = False, fx_trace = []\<rparr>"




section \<open>Properties of the music scheduler\<close>

subsection \<open>The audio context and one slot\<close>

lemma getCtx_fields:
  "getCtx cap s = (c, s') \<Longrightarrow>
     musicEnabled s' = musicEnabled s \<and> nextNoteTime s' = nextNoteTime s \<and>
     timerID s' = timerID s \<and> timers s' = timers s \<and> nextHandle s' = nextHandle s \<and>
     draws s' = draws s \<and> slots s' = slots s \<and> isMusicPlaying s' = isMusicPlaying s \<and>
     audioCtx s' = c \<and> (c \<longleftrightarrow> audioCtx s \<or> cap)"
  by (auto simp: getCtx_def split: if_splits)

lemma getCtx_live: "audioCtx s \<Longrightarrow> getCtx cap s = (True, s)"
  by (simp add: getCtx_def)

lemma scheduleNote_live:
  "audioCtx s \<Longrightarrow>
     \<exists>sl d. slot_time sl = t \<and>
       scheduleNote cap rnd t s = s\<lparr>draws := d, slots := slots s @ [sl]\<rparr>"
  by (cases "rnd (draws s) < 0.2")
     (auto simp: scheduleNote_def getCtx_live random_def Let_def
           intro: exI[of _ "Rest t"] exI[of _ "Note t x" for x])

lemma scheduler_body_live:
  assumes "audioCtx s"
  shows "\<exists>sl k. slot_time sl = nextNoteTime s \<and>
       scheduler_body cap rnd s =
         s\<lparr>draws := Suc k, slots := slots s @ [sl],
            nextNoteTime := nextNoteTime s + (60 / TEMPO + swing_of (rnd k))\<rparr>"
proof -
  obtain sl d where sl: "slot_time sl = nextNoteTime s"
    and eq: "scheduleNote cap rnd (nextNoteTime s) s = s\<lparr>draws := d, slots := slots s @ [sl]\<rparr>"
    using scheduleNote_live[OF assms] by blast
  have "scheduler_body cap rnd s =
         s\<lparr>draws := Suc d, slots := slots s @ [sl],
            nextNoteTime := nextNoteTime s + (60 / TEMPO + swing_of (rnd d))\<rparr>"
    by (simp add: scheduler_body_def eq random_def)
  with sl show ?thesis by blast
qed

lemma unit_half: "unit_draws half_draws"
  by (simp add: unit_draws_def half_draws_def)

lemmas sound_defs =
  toggleBackgroundMusic_def handleToggleMusic_def scheduler_def resumeCtx_def getCtx_def
  scheduleNote_def scheduler_body_def random_def setTimeout_def clearTimeout_def truthy_def
  swing_of_def TEMPO_def SCHEDULE_AHEAD_TIME_def SCALE_def lookup_def initial_sound_def
  half_draws_def

subsection \<open>The loop ends, and keeps what its body keeps\<close>

text \<open>
  Each pass moves \<open>nextNoteTime\<close> forward by at least \<open>60/110 - 0.025 = 229/440\<close>
  seconds, so the loop is left after finitely many passes; an invariant of the body that
  implies a live audio context holds at the exit.
\<close>

lemma scheduler_loop_rule:
  assumes u: "unit_draws rnd"
      and P: "P s" "\<And>s. P s \<Longrightarrow> audioCtx s"
      and pres: "\<And>s. P s \<Longrightarrow> P (scheduler_body cap rnd s)"
  shows "\<exists>s'. scheduler_loop cap rnd now s = Some s' \<and> P s'"
proof -
  define c :: real where "c = 229 / 440"
  have cpos: "0 < c" by (simp add: c_def)
  have adv: "nextNoteTime s + c \<le> nextNoteTime (scheduler_body cap rnd s)" if Ps: "P s" for s
  proof -
    obtain sl k where "scheduler_body cap rnd s =
         s\<lparr>draws := Suc k, slots := slots s @ [sl],
            nextNoteTime := nextNoteTime s + (60 / TEMPO + swing_of (rnd k))\<rparr>"
      using scheduler_body_live[OF P(2)[OF Ps]] by blast
    moreover have "0 \<le> rnd k" using u by (simp add: unit_draws_def)
    ultimately show ?thesis by (simp add: c_def TEMPO_def swing_of_def)
  qed
  have main: "P s \<Longrightarrow> now + SCHEDULE_AHEAD_TIME - nextNoteTime s \<le> real n * c \<Longrightarrow>
      \<exists>s'. scheduler_loop cap rnd now s = Some s' \<and> P s'" for n s
  proof (induction n arbitrary: s)
    case 0
    then have "\<not> nextNoteTime s < now + SCHEDULE_AHEAD_TIME" by simp
    with 0 show ?case by (subst scheduler_loop.simps) simp
  next
    case (Suc n)
    show ?case
    proof (cases "nextNoteTime s < now + SCHEDULE_AHEAD_TIME")
      case False
      with Suc.prems show ?thesis by (subst scheduler_loop.simps) simp
    next
      case True
      have "now + SCHEDULE_AHEAD_TIME - nextNoteTime (scheduler_body cap rnd s) \<le> real n * c"
        using adv[OF Suc.prems(1)] Suc.prems(2) by (simp add: algebra_simps)
      from Suc.IH[OF pres[OF Suc.prems(1)] this] True show ?thesis
        by (subst scheduler_loop.simps) simp
    qed
  qed
  obtain n where "(now + SCHEDULE_AHEAD_TIME - nextNoteTime s) / c \<le> real n"
    using real_arch_simple by blast
  then have "now + SCHEDULE_AHEAD_TIME - nextNoteTime s \<le> real n * c"
    using cpos by (simp add: pos_divide_le_eq)
  from main[OF P(1) this] show ?thesis .
qed

subsection \<open>Gaps between scheduled times\<close>

lemma gaps_snoc2: "gaps (xs @ [a, b]) = gaps (xs @ [a]) @ [b - a]"
  by (induction xs rule: gaps.induct) auto

lemma gaps_snoc_prefix: "list_all Q (gaps (xs @ [a])) \<Longrightarrow> list_all Q (gaps xs)"
  by (induction xs rule: gaps.induct) auto

lemma gaps_pos_sorted: "list_all (\<lambda>g. 0 < g) (gaps xs) \<Longrightarrow> sorted_wrt (<) xs"
proof (induction xs rule: gaps.induct)
  case (1 a b ts)
  then have ab: "a < b" and st: "sorted_wrt (<) (b # ts)" by auto
  then have "\<forall>x\<in>set ts. a < x" by auto
  with ab st show ?case by auto
qed auto

subsection \<open>Pending callbacks\<close>

lemma scheduler_loop_frame:
  assumes u: "unit_draws rnd" and a: "audioCtx s"
  shows "\<exists>s'. scheduler_loop cap rnd now s = Some s' \<and> audioCtx s' \<and>
           musicEnabled s' = musicEnabled s \<and> timerID s' = timerID s \<and>
           timers s' = timers s \<and> nextHandle s' = nextHandle s \<and>
           isMusicPlaying s' = isMusicPlaying s"
proof (rule scheduler_loop_rule[OF u])
  show "audioCtx s \<and> musicEnabled s = musicEnabled s \<and> timerID s = timerID s \<and>
           timers s = timers s \<and> nextHandle s = nextHandle s \<and>
           isMusicPlaying s = isMusicPlaying s" using a by simp
next
  fix x :: sound_state
  assume "audioCtx x \<and> musicEnabled x = musicEnabled s \<and> timerID x = timerID s \<and>
           timers x = timers s \<and> nextHandle x = nextHandle s \<and>
           isMusicPlaying x = isMusicPlaying s"
  then show "audioCtx x" by simp
next
  fix x :: sound_state
  assume h: "audioCtx x \<and> musicEnabled x = musicEnabled s \<and> timerID x = timerID s \<and>
           timers x = timers s \<and> nextHandle x = nextHandle s \<and>
           isMusicPlaying x = isMusicPlaying s"
  then obtain sl k where "scheduler_body cap rnd x =
         x\<lparr>draws := Suc k, slots := slots x @ [sl],
            nextNoteTime := nextNoteTime x + (60 / TEMPO + swing_of (rnd k))\<rparr>"
    using scheduler_body_live[of x cap rnd] by blast
  with h show "audioCtx (scheduler_body cap rnd x) \<and>
           musicEnabled (scheduler_body cap rnd x) = musicEnabled s \<and>
           timerID (scheduler_body cap rnd x) = timerID s \<and>
           timers (scheduler_body cap rnd x) = timers s \<and>
           nextHandle (scheduler_body cap rnd x) = nextHandle s \<and>
           isMusicPlaying (scheduler_body cap rnd x) = isMusicPlaying s" by simp
qed

lemma scheduler_live:
  assumes u: "unit_draws rnd" and a: "audioCtx s" and m: "musicEnabled s"
  shows "\<exists>s'. scheduler cap rnd now s = Some s' \<and> audioCtx s' \<and> musicEnabled s' \<and>
           timerID s' = Some (nextHandle s) \<and> timers s' = timers s @ [nextHandle s] \<and>
           nextHandle s' = Suc (nextHandle s) \<and> isMusicPlaying s' = isMusicPlaying s"
proof -
  obtain s2 where "scheduler_loop cap rnd now s = Some s2" "audioCtx s2"
           "musicEnabled s2 = musicEnabled s" "timerID s2 = timerID s"
           "timers s2 = timers s" "nextHandle s2 = nextHandle s"
           "isMusicPlaying s2 = isMusicPlaying s"
    using scheduler_loop_frame[OF u a] by blast
  then show ?thesis using a m
    by (simp add: scheduler_def getCtx_live setTimeout_def)
qed

lemma scheduler_idle:
  "\<not> musicEnabled s \<Longrightarrow> scheduler cap rnd now s = Some (snd (getCtx cap s))"
  by (simp add: scheduler_def getCtx_def)

lemma toggle_off:
  "toggleBackgroundMusic cap rnd now False s =
     Some (let s2 = (snd (getCtx cap s))\<lparr>musicEnabled := False\<rparr> in
           if truthy (timerID s)
           then s2\<lparr>timers := removeAll (the (timerID s)) (timers s), timerID := None\<rparr>
           else s2)"
  by (simp add: toggleBackgroundMusic_def resumeCtx_def getCtx_def clearTimeout_def Let_def)

lemma toggle_off_silent:
  "\<exists>s1. toggleBackgroundMusic cap rnd now False s = Some s1 \<and> \<not> musicEnabled s1 \<and>
         slots s1 = slots s"
  by (simp add: toggleBackgroundMusic_def resumeCtx_def getCtx_def clearTimeout_def Let_def)

lemma fire_ui_inv:
  assumes u: "unit_draws rnd" and i: "ui_inv cap s"
  shows "\<exists>s'. step cap rnd (Fire h now) s = Some s' \<and> ui_inv cap s'"
proof (cases "h \<in> set (timers s)")
  case False
  then show ?thesis using i by simp
next
  case True
  with i have m: "musicEnabled s" "cap" "audioCtx s" and t: "timers s = [h]"
    and nh: "0 < nextHandle s" and p: "isMusicPlaying s = musicEnabled s"
    by (auto simp: ui_inv_def split: if_splits)
  let ?s0 = "clearTimeout h s"
  have "audioCtx ?s0" "musicEnabled ?s0" using m by (simp_all add: clearTimeout_def)
  from scheduler_live[OF u this, of cap now]
  obtain s' where "scheduler cap rnd now ?s0 = Some s'" "audioCtx s'" "musicEnabled s'"
           "timerID s' = Some (nextHandle ?s0)" "timers s' = timers ?s0 @ [nextHandle ?s0]"
           "nextHandle s' = Suc (nextHandle ?s0)" "isMusicPlaying s' = isMusicPlaying ?s0"
    by blast
  then show ?thesis using True t nh p m
    by (simp add: ui_inv_def clearTimeout_def)
qed

lemma toggle_on_ui:
  assumes u: "unit_draws rnd" and "\<not> musicEnabled s" "timerID s = None" "timers s = []"
     "0 < nextHandle s" "audioCtx s \<longrightarrow> cap" "isMusicPlaying s"
  shows "\<exists>s'. toggleBackgroundMusic cap rnd now True s = Some s' \<and> ui_inv cap s'"
proof (cases "audioCtx s \<or> cap")
  case False
  then have "toggleBackgroundMusic cap rnd now True s = Some (s\<lparr>musicEnabled := True\<rparr>)"
    by (simp add: toggleBackgroundMusic_def resumeCtx_def getCtx_def)
  then show ?thesis using False assms by (simp add: ui_inv_def)
next
  case True
  obtain ctx s1 where g: "getCtx cap s = (ctx, s1)" by (cases "getCtx cap s")
  note f = getCtx_fields[OF g]
  let ?s0 = "s1\<lparr>musicEnabled := True, nextNoteTime := now + 0.1\<rparr>"
  have e: "toggleBackgroundMusic cap rnd now True s = scheduler cap rnd now ?s0"
    using True f by (simp add: toggleBackgroundMusic_def resumeCtx_def g)
  have "audioCtx ?s0" "musicEnabled ?s0" using True f by simp_all
  from scheduler_live[OF u this, of cap now]
  obtain s' where "scheduler cap rnd now ?s0 = Some s'" "audioCtx s'" "musicEnabled s'"
           "timerID s' = Some (nextHandle ?s0)" "timers s' = timers ?s0 @ [nextHandle ?s0]"
           "nextHandle s' = Suc (nextHandle ?s0)" "isMusicPlaying s' = isMusicPlaying ?s0"
    by blast
  then show ?thesis using True assms f by (auto simp: e ui_inv_def)
qed

lemma click_ui_inv:
  assumes u: "unit_draws rnd" and i: "ui_inv cap s"
  shows "\<exists>s'. step cap rnd (Click now) s = Some s' \<and> ui_inv cap s'"
proof -
  obtain ctx s1 where g: "getCtx cap s = (ctx, s1)" by (cases "getCtx cap s")
  note f = getCtx_fields[OF g]
  let ?s2 = "s1\<lparr>isMusicPlaying := \<not> isMusicPlaying s1\<rparr>"
  have st: "handleToggleMusic cap rnd now s =
      toggleBackgroundMusic cap rnd now (\<not> isMusicPlaying s1) ?s2"
    by (simp add: handleToggleMusic_def resumeCtx_def g Let_def)
  show ?thesis
  proof (cases "musicEnabled s")
    case False
    then have "\<not> musicEnabled ?s2" "timerID ?s2 = None" "timers ?s2 = []"
      "0 < nextHandle ?s2" "audioCtx ?s2 \<longrightarrow> cap" "isMusicPlaying ?s2" "\<not> isMusicPlaying s1"
      using i f by (auto simp: ui_inv_def)
    with toggle_on_ui[OF u, of ?s2 cap now] show ?thesis by (simp add: st)
  next
    case True
    then have p: "isMusicPlaying s1" using i f by (simp add: ui_inv_def)
    have "ui_inv cap (the (toggleBackgroundMusic cap rnd now False ?s2))"
      using True i f
      by (auto simp: toggle_off ui_inv_def truthy_def getCtx_def Let_def split: if_splits)
    then show ?thesis using p by (simp add: st toggle_off)
  qed
qed

lemma run_ui_inv:
  assumes u: "unit_draws rnd"
  shows "list_all is_ui evs \<Longrightarrow> ui_inv cap s \<Longrightarrow>
           \<exists>s'. run cap rnd evs s = Some s' \<and> ui_inv cap s'"
proof (induction evs arbitrary: s)
  case Nil
  then show ?case by simp
next
  case (Cons e evs)
  have "\<exists>s1. step cap rnd e s = Some s1 \<and> ui_inv cap s1"
  proof (cases e)
    case (Toggle b n)
    with Cons.prems show ?thesis by simp
  next
    case (Click n)
    then show ?thesis using click_ui_inv[OF u Cons.prems(2)] by simp
  next
    case (Fire h n)
    then show ?thesis using fire_ui_inv[OF u Cons.prems(2)] by simp
  qed
  then obtain s1 where s1: "step cap rnd e s = Some s1" "ui_inv cap s1" by blast
  from Cons.IH[OF _ s1(2)] Cons.prems(1) show ?case by (simp add: s1(1))
qed

lemma ui_inv_initial: "ui_inv cap initial_sound"
  by (simp add: ui_inv_def initial_sound_def)

lemma stop_silences:
  "\<not> musicEnabled s \<Longrightarrow> list_all is_fire evs \<Longrightarrow>
     \<exists>s'. run cap rnd evs s = Some s' \<and> slots s' = slots s \<and> \<not> musicEnabled s'"
proof (induction evs arbitrary: s)
  case Nil
  then show ?case by simp
next
  case (Cons e evs)
  then obtain h now where e: "e = Fire h now" by (cases e) auto
  have "\<exists>s1. step cap rnd e s = Some s1 \<and> slots s1 = slots s \<and> \<not> musicEnabled s1"
    using Cons.prems(1) by (simp add: e scheduler_idle clearTimeout_def getCtx_def)
  then obtain s1 where s1: "step cap rnd e s = Some s1" "slots s1 = slots s"
      "\<not> musicEnabled s1" by blast
  from Cons.IH[OF s1(3)] Cons.prems(2) s1 show ?case by simp
qed

text \<open>
  Claim C2, as stated, fails: the exported toggle has no guard against a second
  \<open>enable(true)\<close>. Called twice in a row with an audio context, it leaves the callbacks
  of timers 1 and 2 both pending.
\<close>

theorem second_enable_queues_second_callback:
  "map_option timers (run True half_draws [Toggle True 0, Toggle True 0] initial_sound)
     = Some [1, 2]"
  by (simp add: sound_defs scheduler_loop.simps)

text \<open>
  Claim C2, amended. The module's only caller is the music button of App.tsx, whose
  handler passes the negation of its own state, so the calls it makes alternate. For every
  sequence of button clicks and timer callbacks from the freshly loaded module, with or
  without an audio context and with \<open>Math.random()\<close> in \<open>[0, 1)\<close>, every step returns
  and at most one scheduling callback is pending afterwards. Every prefix of such a
  sequence is such a sequence, so this holds between any two events.
\<close>

theorem ui_toggles_keep_one_callback:
  assumes "unit_draws rnd" and "list_all is_ui evs"
  shows "\<exists>s'. run cap rnd evs initial_sound = Some s' \<and> length (timers s') \<le> 1"
proof -
  obtain s' where "run cap rnd evs initial_sound = Some s'" "ui_inv cap s'"
    using run_ui_inv[OF assms ui_inv_initial] by blast
  then show ?thesis by (auto simp: ui_inv_def split: if_splits)
qed

theorem ui_toggles_keep_one_callback_witness:
  "\<exists>s'. run True half_draws [Click 0, Fire 1 (3 / 100), Click (1 / 20), Click (1 / 10)]
           initial_sound = Some s' \<and> length (timers s') \<le> 1"
proof -
  have f: "list_all is_ui [Click 0, Fire 1 (3 / 100), Click (1 / 20), Click (1 / 10)]"
    by simp
  show ?thesis by (rule ui_toggles_keep_one_callback[OF unit_half f])
qed

text \<open>
  Claim C4, as stated, fails in two ways. On a platform without an audio context,
  \<open>enable(true)\<close> sets \<open>musicEnabled\<close> and creates no timer: enabled, yet
  \<open>timerID\<close> is null. And after two \<open>enable(true)\<close> in a row, \<open>enable(false)\<close> clears
  only the timer \<open>timerID\<close> names: \<open>timerID\<close> is null while the callback of timer 1
  is still pending.
\<close>

theorem timer_invariant_counterexample:
  "map_option (\<lambda>s. (musicEnabled s, timerID s, timers s))
     (run False half_draws [Toggle True 0] initial_sound) = Some (True, None, []) \<and>
   map_option (\<lambda>s. (musicEnabled s, timerID s, timers s))
     (run True half_draws [Toggle True 0, Toggle True 0, Toggle False 0] initial_sound)
     = Some (False, None, [1])"
  by (simp add: sound_defs scheduler_loop.simps)

text \<open>
  Claim C4, amended. With an audio context, after every operation of a sequence of music
  button clicks and timer callbacks from the freshly loaded module, \<open>timerID\<close> is
  non-null iff a scheduling callback is pending iff \<open>musicEnabled\<close> holds; so a click
  that disables has cancelled the pending timer when it returns. Without an audio context
  the same sequences never create a timer. And from any state, on
  any platform, after \<open>toggleBackgroundMusic(false)\<close> no timer callback hands a slot to
  \<open>scheduleNote\<close> (until the next enable): the slot log stays as it was.
\<close>

theorem ui_timer_invariant_and_silent_stop:
  assumes "unit_draws rnd"
  shows "(list_all is_ui evs \<longrightarrow>
           (\<exists>s'. run True rnd evs initial_sound = Some s' \<and>
              (timerID s' \<noteq> None \<longleftrightarrow> timers s' \<noteq> []) \<and>
              (timers s' \<noteq> [] \<longleftrightarrow> musicEnabled s')) \<and>
           (\<exists>s'. run False rnd evs initial_sound = Some s' \<and>
              timerID s' = None \<and> timers s' = [])) \<and>
         (list_all is_fire fires \<longrightarrow>
           (\<exists>s'. run cap rnd (Toggle False now # fires) s = Some s' \<and> slots s' = slots s))"
proof -
  have a: "\<exists>s'. run True rnd evs initial_sound = Some s' \<and>
              (timerID s' \<noteq> None \<longleftrightarrow> timers s' \<noteq> []) \<and>
              (timers s' \<noteq> [] \<longleftrightarrow> musicEnabled s')"
    if ui: "list_all is_ui evs"
  proof -
    obtain s' where "run True rnd evs initial_sound = Some s'" "ui_inv True s'"
      using run_ui_inv[OF assms ui ui_inv_initial] by blast
    then show ?thesis by (auto simp: ui_inv_def split: if_splits)
  qed
  have b: "\<exists>s'. run cap rnd (Toggle False now # fires) s = Some s' \<and> slots s' = slots s"
    if fs: "list_all is_fire fires"
  proof -
    obtain s1 where 1: "toggleBackgroundMusic cap rnd now False s = Some s1"
      and 2: "\<not> musicEnabled s1" "slots s1 = slots s"
      using toggle_off_silent by blast
    from stop_silences[OF 2(1) fs, of cap rnd] 2(2) show ?thesis by (auto simp: 1)
  qed
  have c: "\<exists>s'. run False rnd evs initial_sound = Some s' \<and>
              timerID s' = None \<and> timers s' = []"
    if ui: "list_all is_ui evs"
  proof -
    obtain s' where "run False rnd evs initial_sound = Some s'" "ui_inv False s'"
      using run_ui_inv[OF assms ui ui_inv_initial] by blast
    then show ?thesis by (auto simp: ui_inv_def)
  qed
  from a b c show ?thesis by blast
qed

theorem ui_timer_invariant_and_silent_stop_witness:
  "(\<exists>s'. run True half_draws [Click 0, Fire 1 (3 / 100), Click (1 / 20)] initial_sound
            = Some s' \<and>
          (timerID s' \<noteq> None \<longleftrightarrow> timers s' \<noteq> []) \<and>
          (timers s' \<noteq> [] \<longleftrightarrow> musicEnabled s')) \<and>
   (\<exists>s'. run False half_draws [Click 0, Fire 1 (3 / 100), Click (1 / 20)] initial_sound
            = Some s' \<and> timerID s' = None \<and> timers s' = []) \<and>
   (\<exists>s'. run True half_draws [Toggle False 1, Fire 1 2] initial_sound = Some s' \<and>
          slots s' = slots initial_sound)"
proof -
  have f: "list_all is_ui [Click 0, Fire 1 (3 / 100), Click (1 / 20)]" by simp
  have g: "list_all is_fire [Fire 1 2]" by simp
  from ui_timer_invariant_and_silent_stop[OF unit_half,
      of "[Click 0, Fire 1 (3 / 100), Click (1 / 20)]" "[Fire 1 2]" True 1 initial_sound] f g
  show ?thesis by blast
qed

section \<open>Properties of the scheduler in double-precision arithmetic\<close>

subsection \<open>The rounding\<close>

lemma round_even_near: "\<bar>of_int (round_even y) - y\<bar> \<le> 1 / 2"
  unfolding round_even_def Let_def by (auto; linarith)

lemma powi_floor_log_le:
  assumes "x \<noteq> 0"
  shows "(2::real) powi \<lfloor>log 2 \<bar>x\<bar>\<rfloor> \<le> \<bar>x\<bar>"
proof -
  have "0 < \<bar>x\<bar>" using assms by simp
  then have "2 powr (of_int \<lfloor>log 2 \<bar>x\<bar>\<rfloor>) \<le> \<bar>x\<bar>"
    using floor_log_eq_powr_iff[of "\<bar>x\<bar>" 2 "\<lfloor>log 2 \<bar>x\<bar>\<rfloor>"] by simp
  then show ?thesis by (simp add: powr_real_of_int')
qed

lemma fl64_error: "\<bar>fl64 x - x\<bar> \<le> \<bar>x\<bar> / 2 ^ 53 + 1 / 2 ^ 1075"
proof (cases "x = 0")
  case True
  then show ?thesis by (simp add: fl64_def)
next
  case False
  define e where "e = max (\<lfloor>log 2 \<bar>x\<bar>\<rfloor> - 52) (- 1074)"
  define p :: real where "p = 2 powi e"
  have ppos: "0 < p" by (simp add: p_def)
  have fx: "fl64 x = of_int (round_even (x / p)) * p"
    using False by (simp add: fl64_def e_def p_def Let_def)
  have "\<bar>of_int (round_even (x / p)) - x / p\<bar> \<le> 1 / 2" by (rule round_even_near)
  then have "\<bar>of_int (round_even (x / p)) - x / p\<bar> * p \<le> 1 / 2 * p"
    using ppos by (intro mult_right_mono) auto
  moreover have "\<bar>of_int (round_even (x / p)) - x / p\<bar> * p = \<bar>fl64 x - x\<bar>"
  proof -
    have "\<bar>of_int (round_even (x / p)) - x / p\<bar> * p = \<bar>(of_int (round_even (x / p)) - x / p) * p\<bar>"
      using ppos by (simp add: abs_mult)
    also have "(of_int (round_even (x / p)) - x / p) * p = fl64 x - x"
      using ppos by (simp add: fx algebra_simps)
    finally show ?thesis .
  qed
  ultimately have err: "\<bar>fl64 x - x\<bar> \<le> p / 2" by simp
  show ?thesis
  proof (cases "\<lfloor>log 2 \<bar>x\<bar>\<rfloor> - 52 \<ge> - 1074")
    case True
    then have "e = \<lfloor>log 2 \<bar>x\<bar>\<rfloor> - 52" by (simp add: e_def)
    then have "p = 2 powi \<lfloor>log 2 \<bar>x\<bar>\<rfloor> / 2 ^ 52"
      by (simp add: p_def power_int_diff)
    then have "p \<le> \<bar>x\<bar> / 2 ^ 52" using powi_floor_log_le[OF False]
      by (simp add: divide_right_mono)
    then show ?thesis using err by simp
  next
    case False
    then have "e = - 1074" by (simp add: e_def)
    then have "p = 1 / 2 ^ 1074" by (simp add: p_def power_int_minus field_simps)
    then have "p / 2 = 1 / 2 ^ 1075" by simp
    moreover have "0 \<le> \<bar>x\<bar> / 2 ^ 53" by simp
    ultimately show ?thesis using err by linarith
  qed
qed

lemma fl64_nonneg: "0 \<le> fl64 \<bar>x\<bar>"
proof (cases "x = 0")
  case True then show ?thesis by (simp add: fl64_def)
next
  case False
  define e where "e = max (\<lfloor>log 2 \<bar>\<bar>x\<bar>\<bar>\<rfloor> - 52) (- 1074)"
  have "0 \<le> \<bar>x\<bar> / 2 powi e" by simp
  then have "0 \<le> round_even (\<bar>x\<bar> / 2 powi e)"
    unfolding round_even_def Let_def by (auto; linarith)
  then show ?thesis using False by (simp add: fl64_def e_def Let_def)
qed

lemma rounding_fl64: "rounding fl64"
  using fl64_error fl64_nonneg by (simp add: rounding_def)

lemma rounding_id: "rounding (\<lambda>x. x)"
  by (simp add: rounding_def)





lemma rounding_err:
  assumes "rounding fl" and "\<bar>x\<bar> \<le> B"
  shows "\<bar>fl x - x\<bar> \<le> B / 2 ^ 53 + 1 / 2 ^ 60"
proof -
  have "\<bar>fl x - x\<bar> \<le> \<bar>x\<bar> / 2 ^ 53 + 1 / 2 ^ 1075"
    using assms(1) by (simp add: rounding_def)
  moreover have "\<bar>x\<bar> / 2 ^ 53 \<le> B / 2 ^ 53" using assms(2) by (simp add: divide_right_mono)
  moreover have "(1::real) / 2 ^ 1075 \<le> 1 / 2 ^ 60" by simp
  ultimately show ?thesis by linarith
qed

lemma rounding_nonneg:
  assumes "rounding fl" and "0 \<le> x"
  shows "0 \<le> fl x"
proof -
  have "\<forall>x. 0 \<le> fl \<bar>x\<bar>" using assms(1) unfolding rounding_def by blast
  then have "0 \<le> fl \<bar>x\<bar>" by (rule spec)
  moreover have "\<bar>x\<bar> = x" using assms(2) by simp
  ultimately show ?thesis by simp
qed

lemma near4:
  assumes "rounding fl" and "\<bar>x\<bar> \<le> 4"
  shows "\<bar>fl x - x\<bar> \<le> 1 / 2 ^ 50"
  using rounding_err[OF assms] by simp

lemma near_sum:
  assumes fl: "rounding fl" and u: "\<bar>u - a\<bar> \<le> e" and v: "\<bar>v - b\<bar> \<le> e'"
      and b: "\<bar>a\<bar> \<le> 1" "\<bar>b\<bar> \<le> 1" "e \<le> 1" "e' \<le> 1"
  shows "\<bar>fl (u + v) - (a + b)\<bar> \<le> e + e' + 1 / 2 ^ 50"
proof -
  have "\<bar>u + v\<bar> \<le> 4" using u v b by linarith
  from near4[OF fl this] u v show ?thesis by linarith
qed

subsection \<open>The swing and the advance\<close>

lemma swing64_close:
  assumes fl: "rounding fl" and r: "0 \<le> r" "r \<le> 1"
  shows "\<bar>swing64 fl r - (r / 20 - 1 / 40)\<bar> \<le> 1 / 2 ^ 50"
proof -
  define a where "a = fl 0.05"
  define c where "c = fl 0.025"
  define p where "p = fl (r * a)"
  have ea: "\<bar>a - 1 / 20\<bar> \<le> 1 / 2 ^ 53 + 1 / 2 ^ 60"
    using rounding_err[OF fl, of "0.05" 1] by (simp add: a_def)
  have ec: "\<bar>c - 1 / 40\<bar> \<le> 1 / 2 ^ 53 + 1 / 2 ^ 60"
    using rounding_err[OF fl, of "0.025" 1] by (simp add: c_def)
  have "r * a - r / 20 = r * (a - 1 / 20)" by (simp add: algebra_simps)
  then have "\<bar>r * a - r / 20\<bar> = r * \<bar>a - 1 / 20\<bar>" using r by (simp add: abs_mult)
  also have "\<dots> \<le> 1 * \<bar>a - 1 / 20\<bar>" using r by (intro mult_right_mono) auto
  finally have em: "\<bar>r * a - r / 20\<bar> \<le> 1 / 2 ^ 53 + 1 / 2 ^ 60" using ea by simp
  have "\<bar>r * a\<bar> \<le> 1" using em r unfolding abs_le_iff by auto
  then have ep: "\<bar>p - r * a\<bar> \<le> 1 / 2 ^ 53 + 1 / 2 ^ 60"
    using rounding_err[OF fl, of "r * a" 1] by (simp add: p_def)
  have "\<bar>p - c\<bar> \<le> 1" using ep em ec r unfolding abs_le_iff by auto
  then have eq: "\<bar>fl (p - c) - (p - c)\<bar> \<le> 1 / 2 ^ 53 + 1 / 2 ^ 60"
    using rounding_err[OF fl, of "p - c" 1] by simp
  have "swing64 fl r = fl (p - c)" by (simp add: swing64_def p_def a_def c_def)
  then show ?thesis using eq ep em ec unfolding abs_le_iff by auto
qed

lemma swing64_sym:
  assumes fl: "rounding fl" and d: "\<bar>d\<bar> \<le> 1 / 2"
  shows "\<bar>swing64 fl (1 / 2 + d) + swing64 fl (1 / 2 - d)\<bar> \<le> slack"
proof -
  have 1: "\<bar>swing64 fl (1 / 2 + d) - ((1 / 2 + d) / 20 - 1 / 40)\<bar> \<le> 1 / 2 ^ 50"
    by (rule swing64_close[OF fl]) (use d in \<open>auto simp: abs_le_iff\<close>)
  have 2: "\<bar>swing64 fl (1 / 2 - d) - ((1 / 2 - d) / 20 - 1 / 40)\<bar> \<le> 1 / 2 ^ 50"
    by (rule swing64_close[OF fl]) (use d in \<open>auto simp: abs_le_iff\<close>)
  have e: "(1 / 2 + d) / 20 - 1 / 40 = d / 20" "(1 / 2 - d) / 20 - 1 / 40 = - (d / 20)"
    by (simp_all add: field_simps)
  have "\<bar>swing64 fl (1 / 2 + d) + swing64 fl (1 / 2 - d)\<bar> \<le> 1 / 2 ^ 50 + 1 / 2 ^ 50"
    using 1 2 unfolding e by linarith
  also have "\<dots> \<le> slack" by (simp add: slack_def)
  finally show ?thesis .
qed

lemma swing64_bounded:
  assumes fl: "rounding fl" and r: "0 \<le> r" "r \<le> 1"
  shows "\<bar>swing64 fl r\<bar> \<le> maxSwing + slack"
  using swing64_close[OF fl r] r unfolding abs_le_iff slack_def maxSwing_def by auto

lemma advance_close:
  assumes fl: "rounding fl" and r: "0 \<le> r" "r \<le> 1" and t: "0 \<le> t" "t \<le> horizon + 1"
  shows "\<bar>fl (t + fl (fl (60 / TEMPO) + swing64 fl r)) - (t + (6 / 11 + r / 20 - 1 / 40))\<bar>
           \<le> 1 / 2 ^ 21 + 1 / 2 ^ 40"
proof -
  define b where "b = fl (60 / TEMPO)"
  define q where "q = swing64 fl r"
  define i where "i = fl (b + q)"
  have eb: "\<bar>b - 6 / 11\<bar> \<le> 1 / 2 ^ 53 + 1 / 2 ^ 60"
    using rounding_err[OF fl, of "60 / TEMPO" 1] by (simp add: b_def TEMPO_def)
  have eq: "\<bar>q - (r / 20 - 1 / 40)\<bar> \<le> 1 / 2 ^ 50"
    using swing64_close[OF fl r] by (simp add: q_def)
  have "\<bar>b + q\<bar> \<le> 1" using eb eq r unfolding abs_le_iff by auto
  then have ei: "\<bar>i - (b + q)\<bar> \<le> 1 / 2 ^ 53 + 1 / 2 ^ 60"
    using rounding_err[OF fl, of "b + q" 1] by (simp add: i_def)
  have "\<bar>t + i\<bar> \<le> 2 ^ 32 + 2" using ei eb eq r t unfolding abs_le_iff horizon_def by auto
  then have et: "\<bar>fl (t + i) - (t + i)\<bar> \<le> (2 ^ 32 + 2) / 2 ^ 53 + 1 / 2 ^ 60"
    using rounding_err[OF fl, of "t + i" "2 ^ 32 + 2"] by simp
  have "fl (t + fl (fl (60 / TEMPO) + swing64 fl r)) = fl (t + i)"
    by (simp add: i_def b_def q_def)
  then show ?thesis using et ei eb eq unfolding abs_le_iff by auto
qed

lemma window_le:
  assumes fl: "rounding fl" and n: "0 \<le> now" "now \<le> horizon"
  shows "0 \<le> fl (now + fl 0.1) \<and> fl (now + fl 0.1) \<le> horizon + 1"
proof -
  define c where "c = fl 0.1"
  have ec: "\<bar>c - 1 / 10\<bar> \<le> 1 / 2 ^ 53 + 1 / 2 ^ 60"
    using rounding_err[OF fl, of "0.1" 1] by (simp add: c_def)
  have "\<bar>now + c\<bar> \<le> 2 ^ 32 + 1" using ec n unfolding abs_le_iff horizon_def by auto
  then have e: "\<bar>fl (now + c) - (now + c)\<bar> \<le> (2 ^ 32 + 1) / 2 ^ 53 + 1 / 2 ^ 60"
    using rounding_err[OF fl, of "now + c" "2 ^ 32 + 1"] by simp
  have "0 \<le> now + c" using ec n unfolding abs_le_iff by auto
  then have "0 \<le> fl (now + c)" by (rule rounding_nonneg[OF fl])
  moreover have "fl (now + c) \<le> horizon + 1" using e ec n unfolding abs_le_iff horizon_def by auto
  ultimately show ?thesis by (simp add: c_def)
qed

subsection \<open>One slot\<close>

lemma scheduleNote64_live:
  "audioCtx s \<Longrightarrow>
     \<exists>sl d. slot_time sl = t \<and>
       scheduleNote64 fl cap rnd t s = s\<lparr>draws := d, slots := slots s @ [sl]\<rparr>"
  by (cases "rnd (draws s) < fl 0.2")
     (auto simp: scheduleNote64_def getCtx_live random_def Let_def
           intro: exI[of _ "Rest t"] exI[of _ "Note t x" for x])

lemma scheduler_body64_live:
  assumes "audioCtx s"
  shows "\<exists>sl k. slot_time sl = nextNoteTime s \<and>
       scheduler_body64 fl cap rnd s =
         s\<lparr>draws := Suc k, slots := slots s @ [sl],
            nextNoteTime := fl (nextNoteTime s + fl (fl (60 / TEMPO) + swing64 fl (rnd k)))\<rparr>"
proof -
  obtain sl d where sl: "slot_time sl = nextNoteTime s"
    and eq: "scheduleNote64 fl cap rnd (nextNoteTime s) s = s\<lparr>draws := d, slots := slots s @ [sl]\<rparr>"
    using scheduleNote64_live[OF assms] by blast
  have "scheduler_body64 fl cap rnd s =
         s\<lparr>draws := Suc d, slots := slots s @ [sl],
            nextNoteTime := fl (nextNoteTime s + fl (fl (60 / TEMPO) + swing64 fl (rnd d)))\<rparr>"
    by (simp add: scheduler_body64_def eq random_def)
  with sl show ?thesis by blast
qed

lemma draws_unit: "double_draws rnd \<Longrightarrow> 0 \<le> rnd k \<and> rnd k \<le> 1"
proof -
  assume "double_draws rnd"
  then have "0 \<le> rnd k \<and> rnd k \<le> 1 - 1 / 2 ^ 53" by (simp add: double_draws_def)
  then show ?thesis by auto
qed

lemma in_swing64_bounds: "in_swing64 g \<Longrightarrow> 1 / 2 \<le> g \<and> g \<le> 1"
  unfolding in_swing64_def baseInterval_def maxSwing_def slack_def TEMPO_def by auto

lemma pass64:
  assumes fl: "rounding fl" and u: "double_draws rnd" and a: "audioCtx s"
      and t: "0 \<le> nextNoteTime s" "nextNoteTime s \<le> horizon + 1"
  shows "\<exists>sl k g. slot_time sl = nextNoteTime s \<and> in_swing64 g \<and>
       scheduler_body64 fl cap rnd s =
         s\<lparr>draws := Suc k, slots := slots s @ [sl], nextNoteTime := nextNoteTime s + g\<rparr>"
proof -
  obtain sl k where sl: "slot_time sl = nextNoteTime s" and eq: "scheduler_body64 fl cap rnd s =
         s\<lparr>draws := Suc k, slots := slots s @ [sl],
            nextNoteTime := fl (nextNoteTime s + fl (fl (60 / TEMPO) + swing64 fl (rnd k)))\<rparr>"
    using scheduler_body64_live[OF a] by blast
  define g where "g = fl (nextNoteTime s + fl (fl (60 / TEMPO) + swing64 fl (rnd k))) - nextNoteTime s"
  have r: "0 \<le> rnd k" "rnd k \<le> 1" using draws_unit[OF u] by auto
  have "\<bar>fl (nextNoteTime s + fl (fl (60 / TEMPO) + swing64 fl (rnd k)))
          - (nextNoteTime s + (6 / 11 + rnd k / 20 - 1 / 40))\<bar> \<le> 1 / 2 ^ 21 + 1 / 2 ^ 40"
    by (rule advance_close[OF fl r t])
  then have "in_swing64 g" using r
    unfolding g_def in_swing64_def baseInterval_def maxSwing_def slack_def TEMPO_def abs_le_iff
    by auto
  moreover have "scheduler_body64 fl cap rnd s =
         s\<lparr>draws := Suc k, slots := slots s @ [sl], nextNoteTime := nextNoteTime s + g\<rparr>"
    by (simp add: eq g_def)
  ultimately show ?thesis using sl by blast
qed






text \<open>With the identity for \<open>fl\<close> the loop body is the real-valued one.\<close>

lemma SCALE64_exact: "SCALE64 (\<lambda>x. x) = SCALE"
  by (simp add: SCALE64_def)

lemma scheduler_body64_exact: "scheduler_body64 (\<lambda>x. x) cap rnd s = scheduler_body cap rnd s"
  unfolding scheduler_body64_def scheduler_body_def scheduleNote64_def scheduleNote_def
    SCALE64_exact swing64_def swing_of_def
  by simp





subsection \<open>The loop and a run\<close>

text \<open>
  Every pass moves \<open>nextNoteTime\<close> forward by at least half a second, so the loop is left
  after finitely many passes; it keeps the gaps, schedules a slot whenever it is entered with
  \<open>nextNoteTime\<close> inside the window, and leaves the timers alone.
\<close>

lemma scheduler_loop64_inv:
  assumes fl: "rounding fl" and u: "double_draws rnd" and n: "0 \<le> now" "now \<le> horizon"
      and i: "sched_inv s"
  shows "\<exists>s'. scheduler_loop64 fl cap rnd now s = Some s' \<and> sched_inv s' \<and>
           musicEnabled s' = musicEnabled s \<and> timerID s' = timerID s \<and>
           timers s' = timers s \<and> nextHandle s' = nextHandle s \<and>
           length (slots s) \<le> length (slots s') \<and>
           (nextNoteTime s < fl (now + fl SCHEDULE_AHEAD_TIME) \<longrightarrow>
              length (slots s) < length (slots s'))"
proof -
  define w where "w = fl (now + fl SCHEDULE_AHEAD_TIME)"
  have w: "0 \<le> w \<and> w \<le> horizon + 1"
    using window_le[OF fl n] by (simp add: w_def SCHEDULE_AHEAD_TIME_def)
  have main: "sched_inv s \<Longrightarrow> w - nextNoteTime s \<le> real m / 2 \<Longrightarrow>
      \<exists>s'. scheduler_loop64 fl cap rnd now s = Some s' \<and> sched_inv s' \<and>
           musicEnabled s' = musicEnabled s \<and> timerID s' = timerID s \<and>
           timers s' = timers s \<and> nextHandle s' = nextHandle s \<and>
           length (slots s) \<le> length (slots s') \<and>
           (nextNoteTime s < fl (now + fl SCHEDULE_AHEAD_TIME) \<longrightarrow>
              length (slots s) < length (slots s'))" for m s
  proof (induction m arbitrary: s)
    case 0
    then have "\<not> nextNoteTime s < w" by simp
    with 0 show ?case by (subst scheduler_loop64.simps) (simp add: w_def)
  next
    case (Suc m)
    show ?case
    proof (cases "nextNoteTime s < w")
      case False
      with Suc.prems show ?thesis by (subst scheduler_loop64.simps) (simp add: w_def)
    next
      case True
      have a: "audioCtx s" and t: "0 \<le> nextNoteTime s" "nextNoteTime s \<le> horizon + 1"
        and c: "chain64 s"
        using Suc.prems(1) True w by (auto simp: sched_inv_def)
      obtain sl k g where sl: "slot_time sl = nextNoteTime s" and g: "in_swing64 g"
        and eq: "scheduler_body64 fl cap rnd s =
           s\<lparr>draws := Suc k, slots := slots s @ [sl], nextNoteTime := nextNoteTime s + g\<rparr>"
        using pass64[OF fl u a t] by blast
      let ?s1 = "scheduler_body64 fl cap rnd s"
      have gb: "1 / 2 \<le> g \<and> g \<le> 1" using in_swing64_bounds[OF g] .
      have i1: "sched_inv ?s1"
        using c a t g gb by (simp add: eq sched_inv_def chain64_def sl gaps_snoc2)
      have "w - nextNoteTime ?s1 \<le> real m / 2"
        using Suc.prems(2) gb by (simp add: eq field_simps)
      from Suc.IH[OF i1 this]
      obtain s' where "scheduler_loop64 fl cap rnd now ?s1 = Some s'" "sched_inv s'"
           "musicEnabled s' = musicEnabled ?s1" "timerID s' = timerID ?s1"
           "timers s' = timers ?s1" "nextHandle s' = nextHandle ?s1"
           "length (slots ?s1) \<le> length (slots s')" by blast
      then show ?thesis using True
        by (subst scheduler_loop64.simps) (simp add: w_def eq)
    qed
  qed
  obtain m where "(w - nextNoteTime s) * 2 \<le> real m"
    using real_arch_simple by blast
  then have "w - nextNoteTime s \<le> real m / 2" by simp
  from main[OF i this] show ?thesis .
qed

lemma scheduler64_inv:
  assumes fl: "rounding fl" and u: "double_draws rnd" and n: "0 \<le> now" "now \<le> horizon"
      and i: "run_inv cap s"
  shows "\<exists>s'. scheduler64 fl cap rnd now s = Some s' \<and> run_inv cap s'"
proof -
  obtain ctx s1 where g: "getCtx cap s = (ctx, s1)" by (cases "getCtx cap s")
  note f = getCtx_fields[OF g]
  show ?thesis
  proof (cases "\<not> ctx \<or> \<not> musicEnabled s1")
    case True
    have "run_inv cap s1" using i f by (auto simp: run_inv_def sched_inv_def chain64_def)
    then show ?thesis using True by (auto simp: scheduler64_def g)
  next
    case False
    then have "sched_inv s" using i f by (auto simp: run_inv_def)
    then have s1: "s1 = s" using g by (simp add: sched_inv_def getCtx_live)
    from scheduler_loop64_inv[OF fl u n \<open>sched_inv s\<close>, of cap]
    obtain s2 where l: "scheduler_loop64 fl cap rnd now s = Some s2" and i2: "sched_inv s2"
      by blast
    have "run_inv cap (snd (setTimeout s2)\<lparr>timerID := Some (fst (setTimeout s2))\<rparr>)"
      using i2 by (simp add: run_inv_def sched_inv_def chain64_def setTimeout_def)
    then show ?thesis using False
      by (simp add: scheduler64_def g s1 l case_prod_beta)
  qed
qed

lemma scheduler64_live:
  assumes fl: "rounding fl" and u: "double_draws rnd" and n: "0 \<le> now" "now \<le> horizon"
      and i: "sched_inv s" and m: "musicEnabled s"
  shows "\<exists>s'. scheduler64 fl cap rnd now s = Some s' \<and> live_inv s' \<and>
           (nextNoteTime s < fl (now + fl SCHEDULE_AHEAD_TIME) \<longrightarrow>
              length (slots s) < length (slots s'))"
proof -
  have g: "getCtx cap s = (True, s)" using i by (simp add: sched_inv_def getCtx_live)
  from scheduler_loop64_inv[OF fl u n i, of cap]
  obtain s2 where l: "scheduler_loop64 fl cap rnd now s = Some s2" and i2: "sched_inv s2"
    and m2: "musicEnabled s2 = musicEnabled s"
    and p: "nextNoteTime s < fl (now + fl SCHEDULE_AHEAD_TIME) \<longrightarrow>
              length (slots s) < length (slots s2)"
    by blast
  let ?s3 = "snd (setTimeout s2)\<lparr>timerID := Some (fst (setTimeout s2))\<rparr>"
  have "live_inv ?s3"
    using i2 m2 m by (simp add: live_inv_def sched_inv_def chain64_def setTimeout_def)
  moreover have "slots ?s3 = slots s2" by (simp add: setTimeout_def)
  moreover have "scheduler64 fl cap rnd now s = Some ?s3"
    using m by (simp add: scheduler64_def g l case_prod_beta)
  ultimately show ?thesis using p by simp
qed

lemma fire64_live:
  assumes fl: "rounding fl" and u: "double_draws rnd" and n: "0 \<le> now" "now \<le> horizon"
      and i: "live_inv s"
  shows "\<exists>s'. step64 fl cap rnd (Fire h now) s = Some s' \<and> live_inv s' \<and>
           (h \<in> set (timers s) \<and> nextNoteTime s < fl (now + fl SCHEDULE_AHEAD_TIME) \<longrightarrow>
              length (slots s) < length (slots s'))"
proof (cases "h \<in> set (timers s)")
  case False
  with i show ?thesis by simp
next
  case True
  have c: "sched_inv (clearTimeout h s)" "musicEnabled (clearTimeout h s)"
    using i by (simp_all add: live_inv_def sched_inv_def chain64_def clearTimeout_def)
  from scheduler64_live[OF fl u n c, of cap] True show ?thesis
    by (simp add: clearTimeout_def)
qed

lemma run64_fires_inv:
  assumes fl: "rounding fl" and u: "double_draws rnd"
  shows "list_all timely_fire evs \<Longrightarrow> run_inv cap s \<Longrightarrow>
           \<exists>s'. run64 fl cap rnd evs s = Some s' \<and> run_inv cap s'"
proof (induction evs arbitrary: s)
  case Nil
  then show ?case by simp
next
  case (Cons e evs)
  then obtain h now where e: "e = Fire h now" and n: "0 \<le> now" "now \<le> horizon"
    by (cases e) (auto simp: timely_fire_def)
  have "run_inv cap (clearTimeout h s)"
    using Cons.prems(2) by (simp add: run_inv_def sched_inv_def chain64_def clearTimeout_def)
  from scheduler64_inv[OF fl u n this]
  have "\<exists>s1. step64 fl cap rnd e s = Some s1 \<and> run_inv cap s1"
    using Cons.prems(2) by (auto simp: e)
  then obtain s1 where s1: "step64 fl cap rnd e s = Some s1" "run_inv cap s1" by blast
  from Cons.IH[OF _ s1(2)] Cons.prems(1) show ?case by (simp add: s1(1))
qed

lemma run64_fires_live:
  assumes fl: "rounding fl" and u: "double_draws rnd"
  shows "list_all timely_fire evs \<Longrightarrow> live_inv s \<Longrightarrow>
           \<exists>s'. run64 fl cap rnd evs s = Some s' \<and> live_inv s'"
proof (induction evs arbitrary: s)
  case Nil
  then show ?case by simp
next
  case (Cons e evs)
  then obtain h now where e: "e = Fire h now" and n: "0 \<le> now" "now \<le> horizon"
    by (cases e) (auto simp: timely_fire_def)
  from fire64_live[OF fl u n Cons.prems(2), of cap h]
  obtain s1 where s1: "step64 fl cap rnd e s = Some s1" "live_inv s1" unfolding e by blast
  from Cons.IH[OF _ s1(2)] Cons.prems(1) show ?case by (simp add: s1(1))
qed

lemma toggle64_on_inv:
  assumes fl: "rounding fl" and u: "double_draws rnd" and n: "0 \<le> now" "now \<le> horizon"
      and e: "slots s = []"
  shows "\<exists>s'. toggleBackgroundMusic64 fl cap rnd now True s = Some s' \<and> run_inv cap s' \<and>
           (cap \<longrightarrow> live_inv s')"
proof -
  obtain ctx s1 where g: "resumeCtx cap s = (ctx, s1)" by (cases "resumeCtx cap s")
  note f = getCtx_fields[OF g[unfolded resumeCtx_def]]
  show ?thesis
  proof (cases ctx)
    case False
    then have "toggleBackgroundMusic64 fl cap rnd now True s = Some (s1\<lparr>musicEnabled := True\<rparr>)"
      by (simp add: toggleBackgroundMusic64_def g)
    moreover have "run_inv cap (s1\<lparr>musicEnabled := True\<rparr>)"
      using f e False by (simp add: run_inv_def chain64_def)
    moreover have "\<not> cap" using f False by simp
    ultimately show ?thesis by blast
  next
    case True
    let ?s2 = "s1\<lparr>musicEnabled := True, nextNoteTime := fl (now + fl 0.1)\<rparr>"
    have t: "toggleBackgroundMusic64 fl cap rnd now True s = scheduler64 fl cap rnd now ?s2"
      using True by (simp add: toggleBackgroundMusic64_def g)
    have "sched_inv ?s2" "musicEnabled ?s2"
      using f e True window_le[OF fl n]
      by (simp_all add: sched_inv_def chain64_def)
    from scheduler64_live[OF fl u n this, of cap]
    obtain s' where s': "scheduler64 fl cap rnd now ?s2 = Some s'" "live_inv s'" by blast
    then have "run_inv cap s'" by (simp add: live_inv_def run_inv_def sched_inv_def)
    with s' show ?thesis by (simp add: t)
  qed
qed

lemma run_inv_gaps:
  assumes "run_inv cap s'"
  shows "sorted_wrt (<) (map slot_time (slots s')) \<and>
         list_all (\<lambda>g. baseInterval - maxSwing - slack \<le> g \<and>
                       g \<le> baseInterval + maxSwing + slack)
           (gaps (map slot_time (slots s')))"
proof -
  have g: "list_all in_swing64 (gaps (map slot_time (slots s')))"
    using assms unfolding run_inv_def chain64_def by (auto intro: gaps_snoc_prefix)
  then have "list_all (\<lambda>g. 0 < g) (gaps (map slot_time (slots s')))"
    by (fastforce simp: list_all_iff dest: in_swing64_bounds)
  then have "sorted_wrt (<) (map slot_time (slots s'))" by (rule gaps_pos_sorted)
  with g show ?thesis by (simp add: in_swing64_def[abs_def])
qed

text \<open>
  Two runs with every draw equal to one half, evaluated for any rounding: the comparisons of
  the loop are decided by the error bound.
\<close>

lemma loop64_go:
  "nextNoteTime s < fl (now + fl SCHEDULE_AHEAD_TIME) \<Longrightarrow>
     scheduler_loop64 fl cap rnd now s =
       scheduler_loop64 fl cap rnd now (scheduler_body64 fl cap rnd s)"
  by (subst scheduler_loop64.simps) simp

lemma loop64_stop:
  "\<not> nextNoteTime s < fl (now + fl SCHEDULE_AHEAD_TIME) \<Longrightarrow>
     scheduler_loop64 fl cap rnd now s = Some s"
  by (subst scheduler_loop64.simps) simp

lemmas sound64_defs =
  run64.simps step64.simps toggleBackgroundMusic64_def scheduler64_def scheduler_body64_def
  scheduleNote64_def resumeCtx_def getCtx_def random_def setTimeout_def clearTimeout_def
  initial_sound_def half_draws_def Let_def TEMPO_def SCHEDULE_AHEAD_TIME_def

lemma half_run_facts:
  assumes fl: "rounding fl"
  defines "x \<equiv> fl (1 / 10)"
  defines "b \<equiv> fl (fl (6 / 11) + swing64 fl (1 / 2))"
  shows "\<not> 1 < fl (1 / 5) * 2"
    and "\<bar>fl x - 1 / 10\<bar> \<le> 2 / 2 ^ 50"
    and "\<bar>fl (1 / 32 + x) - 21 / 160\<bar> \<le> 2 / 2 ^ 50"
    and "\<bar>fl (5 / 8 + x) - 29 / 40\<bar> \<le> 2 / 2 ^ 50"
    and "\<bar>fl (1 / 16 + x) - 13 / 80\<bar> \<le> 2 / 2 ^ 50"
    and "\<bar>fl (3 / 32 + x) - 31 / 160\<bar> \<le> 2 / 2 ^ 50"
    and "\<bar>b - 6 / 11\<bar> \<le> 3 / 2 ^ 50"
    and "\<bar>fl (fl x + b) - (1 / 10 + 6 / 11)\<bar> \<le> 6 / 2 ^ 50"
    and "\<bar>fl (fl (fl x + b) + b) - (1 / 10 + 6 / 11 + 6 / 11)\<bar> \<le> 10 / 2 ^ 50"
    and "\<bar>fl (fl (1 / 16 + x) + b) - (13 / 80 + 6 / 11)\<bar> \<le> 6 / 2 ^ 50"
proof -
  have h: "\<bar>fl (1 / 5) - 1 / 5\<bar> \<le> 1 / 2 ^ 50" using near4[OF fl, of "1 / 5"] by simp
  then show "\<not> 1 < fl (1 / 5) * 2" unfolding abs_le_iff by auto
  have ex: "\<bar>x - 1 / 10\<bar> \<le> 1 / 2 ^ 50" using near4[OF fl, of "1 / 10"] by (simp add: x_def)
  have z: "\<bar>(0::real) - 0\<bar> \<le> 0" by simp
  show eA: "\<bar>fl x - 1 / 10\<bar> \<le> 2 / 2 ^ 50"
    using near_sum[OF fl z ex] by simp
  have c: "\<bar>c - c\<bar> \<le> 0" for c :: real by simp
  show "\<bar>fl (1 / 32 + x) - 21 / 160\<bar> \<le> 2 / 2 ^ 50"
    using near_sum[OF fl c[of "1 / 32"] ex] by simp
  show "\<bar>fl (5 / 8 + x) - 29 / 40\<bar> \<le> 2 / 2 ^ 50"
    using near_sum[OF fl c[of "5 / 8"] ex] by simp
  show eB: "\<bar>fl (1 / 16 + x) - 13 / 80\<bar> \<le> 2 / 2 ^ 50"
    using near_sum[OF fl c[of "1 / 16"] ex] by simp
  show "\<bar>fl (3 / 32 + x) - 31 / 160\<bar> \<le> 2 / 2 ^ 50"
    using near_sum[OF fl c[of "3 / 32"] ex] by simp
  have ey: "\<bar>fl (6 / 11) - 6 / 11\<bar> \<le> 1 / 2 ^ 50" using near4[OF fl, of "6 / 11"] by simp
  have es: "\<bar>swing64 fl (1 / 2) - 0\<bar> \<le> 1 / 2 ^ 50" using swing64_close[OF fl, of "1 / 2"] by simp
  show eb: "\<bar>b - 6 / 11\<bar> \<le> 3 / 2 ^ 50"
    using near_sum[OF fl ey es] by (simp add: b_def)
  show eA': "\<bar>fl (fl x + b) - (1 / 10 + 6 / 11)\<bar> \<le> 6 / 2 ^ 50"
    using near_sum[OF fl eA eb] by simp
  have "\<bar>fl (fl (fl x + b) + b) - (1 / 10 + 6 / 11 + 6 / 11)\<bar> \<le> 6 / 2 ^ 50 + 3 / 2 ^ 50 + 1 / 2 ^ 50"
    by (rule near_sum[OF fl eA' eb]) simp_all
  then show "\<bar>fl (fl (fl x + b) + b) - (1 / 10 + 6 / 11 + 6 / 11)\<bar> \<le> 10 / 2 ^ 50" by simp
  show "\<bar>fl (fl (1 / 16 + x) + b) - (13 / 80 + 6 / 11)\<bar> \<le> 6 / 2 ^ 50"
    using near_sum[OF fl eB eb] by simp
qed

lemma half_run_cmp:
  assumes fl: "rounding fl"
  shows "\<not> 1 < fl (1 / 5) * 2"
    and "fl (fl (1 / 10)) < fl (1 / 32 + fl (1 / 10))"
    and "\<not> fl (fl (fl (1 / 10)) + fl (fl (6 / 11) + swing64 fl (1 / 2))) < fl (1 / 32 + fl (1 / 10))"
    and "fl (fl (fl (1 / 10)) + fl (fl (6 / 11) + swing64 fl (1 / 2))) < fl (5 / 8 + fl (1 / 10))"
    and "\<not> fl (fl (fl (fl (1 / 10)) + fl (fl (6 / 11) + swing64 fl (1 / 2))) + fl (fl (6 / 11) + swing64 fl (1 / 2))) < fl (5 / 8 + fl (1 / 10))"
    and "fl (1 / 16 + fl (1 / 10)) < fl (3 / 32 + fl (1 / 10))"
    and "\<not> fl (fl (1 / 16 + fl (1 / 10)) + fl (fl (6 / 11) + swing64 fl (1 / 2))) < fl (3 / 32 + fl (1 / 10))"
    and "fl (1 / 16 + fl (1 / 10)) - fl (fl (1 / 10)) < 1 / 10"
  using half_run_facts[OF fl] unfolding abs_le_iff by auto

lemma run64_single:
  assumes fl: "rounding fl"
  shows "map_option (\<lambda>s. (map slot_time (slots s), timers s))
           (run64 fl True half_draws [Toggle True 0, Fire 1 (1 / 32), Fire 2 (5 / 8)]
              initial_sound)
         = Some ([fl (fl (1 / 10)),
                  fl (fl (fl (1 / 10)) + fl (fl (6 / 11) + swing64 fl (1 / 2)))], [3])"
  by (simp add: sound64_defs loop64_go loop64_stop half_run_cmp[OF fl])

lemma run64_reenable:
  assumes fl: "rounding fl"
  shows "map_option (\<lambda>s. (musicEnabled s, map slot_time (slots s)))
           (run64 fl True half_draws
              [Toggle True 0, Fire 1 (1 / 32), Toggle True (1 / 16), Fire 2 (3 / 32)]
              initial_sound)
         = Some (True, [fl (fl (1 / 10)), fl (1 / 16 + fl (1 / 10))])"
  by (simp add: sound64_defs loop64_go loop64_stop half_run_cmp[OF fl])

lemma double_half: "double_draws half_draws"
  by (simp add: double_draws_def half_draws_def)

text \<open>
  Claim C3, as stated, fails. The exported toggle has no guard against a second
  \<open>enable(true)\<close> while the scheduler runs, and that call sets \<open>nextNoteTime\<close> back to
  \<open>currentTime + 0.1\<close>. With IEEE rounding and every draw one half: \<open>enable(true)\<close>
  at clock 0, the callback of timer 1 at 1/32 s (it schedules the slot at 0.1 s), a second
  \<open>enable(true)\<close> at 1/16 s, the callback of timer 2 at 3/32 s (it schedules the slot at
  1/16 + 0.1 s). \<open>musicEnabled\<close> is true after every step, and the two scheduled times are
  less than 0.1 s apart, which is below \<open>baseInterval - maxSwing\<close> by more than any
  rounding.
\<close>

theorem second_enable_breaks_gap:
  "map_option (\<lambda>s. (musicEnabled s, map slot_time (slots s)))
     (run64 fl64 True half_draws
        [Toggle True 0, Fire 1 (1 / 32), Toggle True (1 / 16), Fire 2 (3 / 32)]
        initial_sound)
     = Some (True, [fl64 (fl64 (1 / 10)), fl64 (1 / 16 + fl64 (1 / 10))]) \<and>
   fl64 (1 / 16 + fl64 (1 / 10)) - fl64 (fl64 (1 / 10)) < 1 / 10 \<and>
   1 / 10 < baseInterval - maxSwing - slack"
  using run64_reenable[OF rounding_fl64] half_run_cmp(8)[OF rounding_fl64]
  by (simp add: baseInterval_def maxSwing_def slack_def TEMPO_def)

text \<open>
  Claim C3, amended. \<open>fl\<close> is any rounding with the error bound of a double (\<open>fl64\<close>
  is one) and \<open>Math.random()\<close> returns doubles in \<open>[0, 1)\<close>. A run is one
  \<open>toggleBackgroundMusic(true)\<close> followed by any number of timer callbacks, all at
  readings of the audio clock between 0 and \<open>horizon = 2^32\<close> seconds; the slot log is
  observed from that call. Every step of the run returns, the times handed to
  \<open>scheduleNote\<close> are strictly increasing, and each gap between consecutive times lies in
  \<open>[baseInterval - maxSwing - slack, baseInterval + maxSwing + slack]\<close>, where
  \<open>baseInterval = 60 / TEMPO\<close> and \<open>slack = 2^-20\<close> seconds is the room for the rounding
  of the sums. The swing of a draw is bounded by \<open>maxSwing + slack\<close> and is symmetric
  around zero up to \<open>slack\<close> (draws equally far from one half give swings whose sum is
  at most \<open>slack\<close> in size). The schedule is not empty for want of callbacks: on a platform
  with an audio context a callback is pending after the run, and any pending callback that
  fires while \<open>nextNoteTime\<close> is inside its look-ahead window schedules at least one more
  slot.
\<close>

theorem scheduled_times_increase_within_rounded_swing:
  assumes "rounding fl" and "double_draws rnd" and "slots s = []"
      and "0 \<le> now \<and> now \<le> horizon" and "list_all timely_fire evs"
  shows "(\<exists>s'. run64 fl cap rnd (Toggle True now # evs) s = Some s' \<and>
           sorted_wrt (<) (map slot_time (slots s')) \<and>
           list_all (\<lambda>g. baseInterval - maxSwing - slack \<le> g \<and>
                         g \<le> baseInterval + maxSwing + slack)
             (gaps (map slot_time (slots s'))) \<and>
           (cap \<longrightarrow> timers s' \<noteq> [] \<and>
              (\<forall>h T. h \<in> set (timers s') \<and> 0 \<le> T \<and> T \<le> horizon \<and>
                     nextNoteTime s' < fl (T + fl SCHEDULE_AHEAD_TIME) \<longrightarrow>
                 (\<exists>s''. step64 fl cap rnd (Fire h T) s' = Some s'' \<and>
                        length (slots s') < length (slots s''))))) \<and>
         baseInterval = 60 / TEMPO \<and> slack = 1 / 2 ^ 20 \<and> horizon = 2 ^ 32 \<and>
         (\<forall>r. 0 \<le> r \<and> r \<le> 1 \<longrightarrow> \<bar>swing64 fl r\<bar> \<le> maxSwing + slack) \<and>
         (\<forall>d. \<bar>d\<bar> \<le> 1 / 2 \<longrightarrow> \<bar>swing64 fl (1 / 2 + d) + swing64 fl (1 / 2 - d)\<bar> \<le> slack)"
proof -
  have n: "0 \<le> now" "now \<le> horizon" using assms(4) by auto
  obtain s1 where t: "toggleBackgroundMusic64 fl cap rnd now True s = Some s1"
    and c1: "run_inv cap s1" and l1: "cap \<longrightarrow> live_inv s1"
    using toggle64_on_inv[OF assms(1,2) n assms(3)] by blast
  obtain s' where r: "run64 fl cap rnd evs s1 = Some s'" and c: "run_inv cap s'"
    using run64_fires_inv[OF assms(1,2,5) c1] by blast
  have l: "live_inv s'" if cap
  proof -
    from l1 that have "live_inv s1" by simp
    from run64_fires_live[OF assms(1,2,5) this, of cap] r show ?thesis by simp
  qed
  have p: "\<exists>s''. step64 fl cap rnd (Fire h T) s' = Some s'' \<and>
                        length (slots s') < length (slots s'')"
    if cap "h \<in> set (timers s')" "0 \<le> T" "T \<le> horizon"
       "nextNoteTime s' < fl (T + fl SCHEDULE_AHEAD_TIME)" for h T
    using fire64_live[OF assms(1,2) that(3,4) l[OF that(1)], of cap h] that(2,5) by blast
  have q: "timers s' \<noteq> []" if cap using l[OF that] by (simp add: live_inv_def)
  have r0: "run64 fl cap rnd (Toggle True now # evs) s = Some s'" using r t by simp
  have lv: "cap \<longrightarrow> timers s' \<noteq> [] \<and>
              (\<forall>h T. h \<in> set (timers s') \<and> 0 \<le> T \<and> T \<le> horizon \<and>
                     nextNoteTime s' < fl (T + fl SCHEDULE_AHEAD_TIME) \<longrightarrow>
                 (\<exists>s''. step64 fl cap rnd (Fire h T) s' = Some s'' \<and>
                        length (slots s') < length (slots s'')))"
    using p q by blast
  have 1: "\<exists>s'. run64 fl cap rnd (Toggle True now # evs) s = Some s' \<and>
           sorted_wrt (<) (map slot_time (slots s')) \<and>
           list_all (\<lambda>g. baseInterval - maxSwing - slack \<le> g \<and>
                         g \<le> baseInterval + maxSwing + slack)
             (gaps (map slot_time (slots s'))) \<and>
           (cap \<longrightarrow> timers s' \<noteq> [] \<and>
              (\<forall>h T. h \<in> set (timers s') \<and> 0 \<le> T \<and> T \<le> horizon \<and>
                     nextNoteTime s' < fl (T + fl SCHEDULE_AHEAD_TIME) \<longrightarrow>
                 (\<exists>s''. step64 fl cap rnd (Fire h T) s' = Some s'' \<and>
                        length (slots s') < length (slots s''))))"
    using run_inv_gaps[OF c] r0 lv by blast
  have 2: "\<forall>r. 0 \<le> r \<and> r \<le> 1 \<longrightarrow> \<bar>swing64 fl r\<bar> \<le> maxSwing + slack"
    using swing64_bounded[OF assms(1)] by blast
  have 3: "\<forall>d. \<bar>d\<bar> \<le> 1 / 2 \<longrightarrow> \<bar>swing64 fl (1 / 2 + d) + swing64 fl (1 / 2 - d)\<bar> \<le> slack"
    using swing64_sym[OF assms(1)] by blast
  have 4: "baseInterval = 60 / TEMPO \<and> slack = 1 / 2 ^ 20 \<and> horizon = 2 ^ 32"
    by (simp add: baseInterval_def slack_def horizon_def)
  from 1 2 3 4 show ?thesis by blast
qed

text \<open>
  A run from the freshly loaded module with IEEE rounding and every draw equal to one half:
  the toggle at clock 0, then the callbacks of timers 1 and 2 at 1/32 s and 5/8 s. Two slots
  are scheduled, the second later than the first, by a gap inside the range.
\<close>

theorem scheduled_times_increase_within_rounded_swing_witness:
  "map_option (\<lambda>s. map slot_time (slots s))
     (run64 fl64 True half_draws [Toggle True 0, Fire 1 (1 / 32), Fire 2 (5 / 8)]
        initial_sound)
     = Some [fl64 (fl64 (1 / 10)),
             fl64 (fl64 (fl64 (1 / 10)) + fl64 (fl64 (6 / 11) + swing64 fl64 (1 / 2)))] \<and>
   fl64 (fl64 (1 / 10)) <
     fl64 (fl64 (fl64 (1 / 10)) + fl64 (fl64 (6 / 11) + swing64 fl64 (1 / 2))) \<and>
   baseInterval - maxSwing - slack \<le>
     fl64 (fl64 (fl64 (1 / 10)) + fl64 (fl64 (6 / 11) + swing64 fl64 (1 / 2)))
       - fl64 (fl64 (1 / 10)) \<and>
   fl64 (fl64 (fl64 (1 / 10)) + fl64 (fl64 (6 / 11) + swing64 fl64 (1 / 2)))
       - fl64 (fl64 (1 / 10)) \<le> baseInterval + maxSwing + slack"
proof -
  have e: "slots initial_sound = []" by (simp add: initial_sound_def)
  have n: "(0::real) \<le> 0 \<and> 0 \<le> horizon" by (simp add: horizon_def)
  have f: "list_all timely_fire [Fire 1 (1 / 32), Fire 2 (5 / 8)]"
    by (simp add: timely_fire_def horizon_def)
  from scheduled_times_increase_within_rounded_swing[OF rounding_fl64 double_half e n f, of True]
  obtain s' where r: "run64 fl64 True half_draws
        [Toggle True 0, Fire 1 (1 / 32), Fire 2 (5 / 8)] initial_sound = Some s'"
    and s: "sorted_wrt (<) (map slot_time (slots s'))"
    and g: "list_all (\<lambda>g. baseInterval - maxSwing - slack \<le> g \<and>
                         g \<le> baseInterval + maxSwing + slack)
             (gaps (map slot_time (slots s')))"
    by blast
  have m: "map slot_time (slots s') = [fl64 (fl64 (1 / 10)),
             fl64 (fl64 (fl64 (1 / 10)) + fl64 (fl64 (6 / 11) + swing64 fl64 (1 / 2)))]"
    using run64_single[OF rounding_fl64] unfolding r by simp
  from s g show ?thesis unfolding r by (simp add: m)
qed

section \<open>Properties of the one-shot effects\<close>

lemma try_catch_normal: "fst (try_catch r) = Normal ()"
  by (cases r) (auto simp: try_catch_def split: completion.splits)

lemma guarded_no_audio:
  "\<not> fx_ctx st \<Longrightarrow> \<not> hasAudioContext P \<Longrightarrow> guarded P body st = (Normal (), st)"
  by (simp add: guarded_def fx_resumeCtx_def fx_getCtx_def)

lemma playEffect_shape:
  "\<exists>body. playEffect kind P st = try_catch (guarded P body st)"
  by (cases kind)
     (auto simp: playClick_def playHover_def playCapture_def playCameraStart_def
        playCameraStop_def playSuccess_def)

text \<open>
  Claim C7. For each of the six effects, whatever calls of the audio subsystem throw and
  whenever they do, the effect returns normally to its caller: the whole body, obtaining
  the context included, sits inside \<open>try\<close> with an empty handler. Where the platform
  has no audio context class (and none was created before), the effect makes no audio
  call at all.
\<close>

theorem playEffect_never_throws:
  "fst (playEffect kind P st) = Normal () \<and>
   (\<not> fx_ctx st \<and> \<not> hasAudioContext P \<longrightarrow> snd (playEffect kind P st) = st)"
proof -
  obtain body where b: "playEffect kind P st = try_catch (guarded P body st)"
    using playEffect_shape by blast
  have "fst (playEffect kind P st) = Normal ()" unfolding b by (rule try_catch_normal)
  moreover have "snd (playEffect kind P st) = st" if "\<not> fx_ctx st" "\<not> hasAudioContext P"
    unfolding b using that by (simp add: guarded_no_audio try_catch_def)
  ultimately show ?thesis by simp
qed

text \<open>
  On a platform whose \<open>createGain\<close> throws, the body of the click effect throws and the
  effect still returns; on a platform without audio, the success chord changes nothing.
\<close>

theorem playEffect_never_throws_witness:
  "fst (playEffect click faulty_platform fx_initial) = Normal () \<and>
   fst (guarded faulty_platform click_body fx_initial) = Thrown \<and>
   snd (playEffect success silent_platform fx_initial) = fx_initial"
proof -
  have 1: "\<not> fx_ctx fx_initial \<and> \<not> hasAudioContext silent_platform"
    by (simp add: fx_initial_def silent_platform_def)
  have 2: "fst (guarded faulty_platform click_body fx_initial) = Thrown"
    by (simp add: guarded_def fx_resumeCtx_def fx_getCtx_def faulty_platform_def
          fx_initial_def click_body_def)
  from playEffect_never_throws[of click faulty_platform fx_initial]
       playEffect_never_throws[of success silent_platform fx_initial] 1 2
  show ?thesis by blast
qed

section \<open>Properties of the camera session\<close>

subsection \<open>Starting\<close>

lemma errorMessage_thrown:
  "errorMessage \<lparr>err_name = ''Error'', err_message = ''Could not initialize any camera source.''\<rparr>
     = CouldNotAccess"
  by (simp add: errorMessage_def)

text \<open>
  The classification itself knows the permission errors; but the two inner \<open>catch\<close>
  blocks keep the rejections of \<open>getUserMedia\<close> to themselves, and the outer \<open>catch\<close>
  only ever sees the \<open>Error\<close> thrown for a missing stream.
\<close>

lemma errorMessage_denied: "errorMessage denied = PermissionDenied"
  by (simp add: errorMessage_def denied_def)

lemma startCamera_failure_is_generic:
  assumes "hasGetUserMedia env" and "acquire env = None"
  shows "alerts (startCamera env s) = alerts s @ [CouldNotAccess] \<and>
         \<not> isCameraOpen (startCamera env s) \<and> streamRef (startCamera env s) = None"
  using assms
  by (cases "streamRef s")
     (simp_all add: startCamera_def startCamera_begin_def startCamera_resume_def
        stopCamera_def alert_def play_def stop_tracks_def errorMessage_thrown)

text \<open>
  Claim C1, on the code. Both acquisition attempts are rejected with \<open>NotAllowedError\<close>.
  The session does end closed and without a stream, but the message raised is the generic
  "Could not access camera.", not the permission-denied one.
\<close>

theorem startCamera_denied_twice_alerts_generic:
  "startCamera env_denied initial_form
     = initial_form\<lparr>alerts := [CouldNotAccess], played := [ClickSound]\<rparr>"
  by (simp add: startCamera_def startCamera_begin_def startCamera_resume_def acquire_def
        stopCamera_def alert_def play_def initial_form_def env_denied_def errorMessage_thrown)

subsection \<open>Unmounting\<close>

lemma unmount_cleanup_stops_held_stream:
  "streamRef s = Some ts \<Longrightarrow> live s \<subseteq> set ts \<Longrightarrow> live (unmount_cleanup s) = {}"
  by (simp add: unmount_cleanup_def stop_tracks_def)

text \<open>
  Claim C8, on the code. The form is unmounted while \<open>startCamera\<close> is waiting (no
  stream is held yet, so the cleanup finds nothing to stop); the request is then granted.
  The continuation stores the stream, and its track 7 stays live with nothing left to
  stop it.
\<close>

theorem unmount_while_opening_leaves_live_track:
  "live (startCamera_resume env_granted (unmount_cleanup (startCamera_begin initial_form)))
     = {7}"
  by (simp add: startCamera_begin_def startCamera_resume_def acquire_def unmount_cleanup_def
        play_def initial_form_def env_granted_def)

subsection \<open>Capturing\<close>

lemma mirror_transform:
  "scale (- 1) 1 (translate (int w) 0 identity_transform)
     = \<lparr>t_a = - 1, t_d = 1, t_e = int w, t_f = 0\<rparr>"
  by (simp add: scale_def translate_def identity_transform_def)

text \<open>What the three canvas calls of \<open>capturePhoto\<close> draw is the mirror of the frame.\<close>

lemma drawImage_mirrored:
  "drawImage (scale (- 1) 1 (translate (int (videoWidth v)) 0 identity_transform)) v
      (videoWidth v) (videoHeight v) = mirrored v"
proof -
  have "sample v (source_of (- 1) (int (videoWidth v)) X) (source_of 1 0 Y)
          = Some (frame v (videoWidth v - 1 - X) Y)"
    if "X < videoWidth v" "Y < videoHeight v" for X Y
  proof -
    have "nat (int (videoWidth v) - 1 - int X) = videoWidth v - 1 - X" using that by linarith
    then show ?thesis using that by (simp add: sample_def source_of_def)
  qed
  then show ?thesis
    by (simp add: drawImage_def mirrored_def mirror_transform)
qed

lemma mirrored_dims:
  "length (mirrored v) = videoHeight v \<and>
   list_all (\<lambda>row. length row = videoWidth v) (mirrored v)"
  by (simp add: mirrored_def list_all_iff)

lemma mirrored_nth:
  "x < videoWidth v \<Longrightarrow> y < videoHeight v \<Longrightarrow>
     mirrored v ! y ! x = Some (frame v (videoWidth v - 1 - x) y)"
  by (simp add: mirrored_def)

lemma stopCamera_closed: "\<not> isCameraOpen (stopCamera s) \<and> streamRef (stopCamera s) = None"
  by (cases "streamRef s") (simp_all add: stopCamera_def stop_tracks_def)

text \<open>
  Claim C5, as stated, fails: the camera is open, but the video has no frame size yet, so
  the canvas has no pixels and the encoder has no blob. \<open>capturePhoto\<close> then leaves the
  session open, its stream held, and builds no image.
\<close>

theorem capture_without_blob_stays_open:
  "isCameraOpen (capturePhoto capture_blank open_form) \<and>
   streamRef (capturePhoto capture_blank open_form) = Some [7] \<and>
   captured (capturePhoto capture_blank open_form) = []"
  by (simp add: capturePhoto_def play_def open_form_def initial_form_def blank_video_def
        capture_blank_def jpeg_encoder_def drawImage_def Let_def)

text \<open>
  Claim C5, amended. While the camera is open, if the canvas gives a 2D context and the
  encoder gives a blob for the raster drawn, \<open>capturePhoto\<close> stops the camera (the
  session is closed, no stream is held) and builds exactly one image: the JPEG file of
  that blob. The raster drawn is the video frame mirrored left to right, as many rows as
  the frame is high, each as long as the frame is wide. In every other case (the camera
  closed, no context, or no blob) it builds no image and leaves the session as it was,
  apart from the shutter sound it requests first.
\<close>

theorem capturePhoto_outcomes:
  "(isCameraOpen s \<and> context2d env \<and> toBlob env (mirrored (video_now env)) = Some blob \<longrightarrow>
      capturePhoto env s =
        (stopCamera s)\<lparr>isImageLoading := True, played := played s @ [CaptureSound],
           selectedFile := Some \<lparr>file_name = ''camera-capture.jpg'',
                                 file_type = ''image/jpeg'', file_bytes = blob\<rparr>,
           captured := captured s @ [\<lparr>file_name = ''camera-capture.jpg'',
                                      file_type = ''image/jpeg'', file_bytes = blob\<rparr>]\<rparr>
      \<and> \<not> isCameraOpen (capturePhoto env s) \<and> streamRef (capturePhoto env s) = None) \<and>
   (\<not> isCameraOpen s \<or> \<not> context2d env \<or> toBlob env (mirrored (video_now env)) = None \<longrightarrow>
      capturePhoto env s = s\<lparr>played := played s @ [CaptureSound]\<rparr>) \<and>
   length (mirrored (video_now env)) = videoHeight (video_now env) \<and>
   list_all (\<lambda>row. length row = videoWidth (video_now env)) (mirrored (video_now env)) \<and>
   (\<forall>x y. x < videoWidth (video_now env) \<and> y < videoHeight (video_now env) \<longrightarrow>
      mirrored (video_now env) ! y ! x
        = Some (frame (video_now env) (videoWidth (video_now env) - 1 - x) y))"
proof -
  have a: "capturePhoto env s =
        (stopCamera s)\<lparr>isImageLoading := True, played := played s @ [CaptureSound],
           selectedFile := Some \<lparr>file_name = ''camera-capture.jpg'',
                                 file_type = ''image/jpeg'', file_bytes = blob\<rparr>,
           captured := captured s @ [\<lparr>file_name = ''camera-capture.jpg'',
                                      file_type = ''image/jpeg'', file_bytes = blob\<rparr>]\<rparr>"
    if "isCameraOpen s" "context2d env" "toBlob env (mirrored (video_now env)) = Some blob"
    using that
    by (cases "streamRef s")
       (simp_all add: capturePhoto_def Let_def play_def drawImage_mirrored stopCamera_def
          stop_tracks_def)
  have b: "capturePhoto env s = s\<lparr>played := played s @ [CaptureSound]\<rparr>"
    if "\<not> isCameraOpen s \<or> \<not> context2d env \<or> toBlob env (mirrored (video_now env)) = None"
    using that by (auto simp: capturePhoto_def Let_def play_def drawImage_mirrored)
  show ?thesis
    using a b stopCamera_closed mirrored_dims[of "video_now env"]
      mirrored_nth[of _ "video_now env"]
    by simp
qed

text \<open>
  A frame of two pixels, 10 and 20: the raster encoded is 20, 10, and the open session
  ends closed with the one captured file selected and track 7 stopped.
\<close>

theorem capturePhoto_outcomes_witness:
  "capturePhoto capture_two open_form =
     initial_form\<lparr>isImageLoading := True, played := [CaptureSound],
        selectedFile := Some camera_jpeg, captured := [camera_jpeg]\<rparr> \<and>
   mirrored two_pixel_video = [[Some 20, Some 10]]"
proof -
  have m: "mirrored two_pixel_video = [[Some 20, Some 10]]"
    by (simp add: mirrored_def two_pixel_video_def upt_rec)
  have h: "isCameraOpen open_form \<and> context2d capture_two \<and>
        toBlob capture_two (mirrored (video_now capture_two)) = Some [255, 216, 255]"
    by (simp add: open_form_def capture_two_def m jpeg_encoder_def)
  from capturePhoto_outcomes[of open_form capture_two "[255, 216, 255]"] h
  have "capturePhoto capture_two open_form =
        (stopCamera open_form)\<lparr>isImageLoading := True,
           played := played open_form @ [CaptureSound],
           selectedFile := Some \<lparr>file_name = ''camera-capture.jpg'',
                                 file_type = ''image/jpeg'', file_bytes = [255, 216, 255]\<rparr>,
           captured := captured open_form @ [\<lparr>file_name = ''camera-capture.jpg'',
                                      file_type = ''image/jpeg'',
                                      file_bytes = [255, 216, 255]\<rparr>]\<rparr>"
    by blast
  then show ?thesis
    by (simp add: m stopCamera_def stop_tracks_def open_form_def initial_form_def
          camera_jpeg_def)
qed

section \<open>Properties of submitting\<close>

lemma all_space_trim: "list_all is_space t \<Longrightarrow> trim t = []"
proof -
  assume "list_all is_space t"
  then have h: "dropWhile is_space t = []" by (simp add: list_all_iff)
  show ?thesis by (simp only: trim_def h rev.simps dropWhile.simps)
qed

text \<open>
  Claim C10. \<open>handleSubmit\<close> calls \<open>onSubmit\<close> exactly when the trimmed text is not
  empty or a file is selected. For a text that is not empty and is white space throughout,
  with no file and nothing loading, the button is enabled (its \<open>disabled\<close> test reads
  the untrimmed text), and the handler raises the alert and makes no \<open>onSubmit\<close> call.
\<close>

theorem submit_needs_trimmed_text_or_file:
  "(snd (handleSubmit s) \<noteq> None \<longleftrightarrow> trim (textInput s) \<noteq> [] \<or> selectedFile s \<noteq> None) \<and>
   (textInput s \<noteq> [] \<and> list_all is_space (textInput s) \<and> selectedFile s = None \<and>
    \<not> isLoading \<and> \<not> isImageLoading s \<longrightarrow>
      \<not> submit_disabled isLoading s \<and> handleSubmit s = (alert NeedInput s, None))"
  by (auto simp: handleSubmit_def submit_disabled_def all_space_trim)

text \<open>A space and a tab typed into the empty form.\<close>

theorem submit_needs_trimmed_text_or_file_witness:
  "\<not> submit_disabled False (initial_form\<lparr>textInput := [32, 9]\<rparr>) \<and>
   handleSubmit (initial_form\<lparr>textInput := [32, 9]\<rparr>)
     = (alert NeedInput (initial_form\<lparr>textInput := [32, 9]\<rparr>), None)"
proof -
  have h: "textInput (initial_form\<lparr>textInput := [32, 9]\<rparr>) \<noteq> [] \<and>
     list_all is_space (textInput (initial_form\<lparr>textInput := [32, 9]\<rparr>)) \<and>
     selectedFile (initial_form\<lparr>textInput := [32, 9]\<rparr>) = None \<and> \<not> False \<and>
     \<not> isImageLoading (initial_form\<lparr>textInput := [32, 9]\<rparr>)"
    by (simp add: initial_form_def is_space_def)
  from submit_needs_trimmed_text_or_file[of "initial_form\<lparr>textInput := [32, 9]\<rparr>" False] h
  show ?thesis by blast
qed

section \<open>Properties of the backend call\<close>





lemma base64_examples:
  "base64 [77, 97, 110] = ''TWFu'' \<and> base64 [77, 97] = ''TWE='' \<and> base64 [77] = ''TQ==''"
  by (simp add: b64_char_def b64_alphabet_def)




end
